theory Spec2Isabelle
  imports Complex_Main
begin

section \<open>Data model of the violation detector\<close>

text \<open>
  The development embeds \<^verbatim>\<open>services/violation_detector/main.py\<close>. Python floats are
  idealised as real numbers, so \<^verbatim>\<open>** 0.5\<close> is the real square root and no rounding
  takes place. The one non-finite float the code uses, \<^verbatim>\<open>float('inf')\<close>, is the value
  \<open>None\<close> of type \<open>real option\<close>. A position dictionary (\<^verbatim>\<open>Dict[str, float]\<close>)
  is a map from key strings to reals; \<^verbatim>\<open>d.get(k, 0)\<close> is \<open>dict_get0\<close>.
\<close>

type_synonym pos = "string \<rightharpoonup> real"

definition dict_get0 :: "pos \<Rightarrow> string \<Rightarrow> real" where
  "dict_get0 d k = (case d k of None \<Rightarrow> 0 | Some v \<Rightarrow> v)"

text \<open>
  Record fields carry a prefix where the source's field name is also used as a parameter
  name (\<^verbatim>\<open>frame_id\<close>, \<^verbatim>\<open>roi_name\<close>, ...) or occurs in several classes.
\<close>

record Detection =
  class_name :: string
  confidence :: real
  bbox :: pos
  center :: pos
  area :: real
  det_frame_id :: string
  det_timestamp :: real

record ROI =
  roi_name :: string
  roi_shape :: string
  roi_ingredient_type :: string
  roi_requires_scooper :: bool
  roi_x :: "real option"
  roi_y :: "real option"
  roi_width :: "real option"
  roi_height :: "real option"
  roi_points :: "(real \<times> real) list option"

section \<open>Distances and the simple scooper-usage classifier\<close>

text \<open>
  \<^verbatim>\<open>_calculate_distance\<close>: a missing coordinate counts as 0 (\<^verbatim>\<open>pos.get("x", 0) or 0\<close>).
\<close>

definition calculate_distance :: "pos \<Rightarrow> pos \<Rightarrow> real" where
  "calculate_distance pos1 pos2 =
     (let x1 = dict_get0 pos1 ''x''; y1 = dict_get0 pos1 ''y'';
          x2 = dict_get0 pos2 ''x''; y2 = dict_get0 pos2 ''y''
      in sqrt ((x1 - x2)\<^sup>2 + (y1 - y2)\<^sup>2))"

text \<open>The comparison \<^verbatim>\<open>distance < closest_distance\<close>, where the right side may be infinite.\<close>

definition lt_inf :: "real \<Rightarrow> real option \<Rightarrow> bool" where
  "lt_inf d c = (case c of None \<Rightarrow> True | Some c' \<Rightarrow> d < c')"

text \<open>
  The loop \<^verbatim>\<open>for scooper in scoopers: ... if distance < closest_distance: closest_distance = distance\<close>
  shared by \<^verbatim>\<open>_is_hand_using_scooper_simple\<close> and \<^verbatim>\<open>_get_closest_scooper_distance\<close>;
  the accumulator starts at infinity.
\<close>

fun closest_loop :: "pos \<Rightarrow> Detection list \<Rightarrow> real option \<Rightarrow> real option" where
  "closest_loop hc [] closest_distance = closest_distance"
| "closest_loop hc (scooper # rest) closest_distance =
     (let distance = calculate_distance hc (center scooper)
      in closest_loop hc rest
           (if lt_inf distance closest_distance then Some distance else closest_distance))"

text \<open>
  \<^verbatim>\<open>_is_hand_using_scooper_simple\<close>. The parameter \<open>allow_nearby\<close> is the value of
  \<^verbatim>\<open>os.getenv("ALLOW_NEARBY_SCOOPER_FALLBACK", "true").lower() == "true"\<close>.
\<close>

definition is_hand_using_scooper_simple :: "bool \<Rightarrow> Detection \<Rightarrow> Detection list \<Rightarrow> bool" where
  "is_hand_using_scooper_simple allow_nearby hand scoopers =
     (if scoopers = [] then False
      else case closest_loop (center hand) scoopers None of
             None \<Rightarrow> False
           | Some closest_distance \<Rightarrow>
               if closest_distance \<le> 50 then True
               else if closest_distance \<le> 100 then (if allow_nearby then True else False)
               else False)"

definition get_closest_scooper_distance :: "Detection \<Rightarrow> Detection list \<Rightarrow> real option" where
  "get_closest_scooper_distance hand scoopers =
     (if scoopers = [] then None else closest_loop (center hand) scoopers None)"

text \<open>
  The specification's \<open>closest_distance\<close>: the minimum of the centre-to-centre Euclidean
  distances from the hand to the scoopers of the frame.
\<close>

definition min_center_distance :: "Detection \<Rightarrow> Detection list \<Rightarrow> real" where
  "min_center_distance hand scoopers =
     Min ((\<lambda>s. calculate_distance (center hand) (center s)) ` set scoopers)"

section \<open>Hand to worker association\<close>

text \<open>
  The inner loop of \<^verbatim>\<open>_associate_hands_with_workers\<close> over \<^verbatim>\<open>enumerate(persons)\<close>:
  the running pair is \<^verbatim>\<open>(min_distance, closest_worker)\<close>, starting at
  \<^verbatim>\<open>(float('inf'), None)\<close>.
\<close>

fun closest_worker_loop ::
  "pos \<Rightarrow> Detection list \<Rightarrow> nat \<Rightarrow> real option \<times> nat option \<Rightarrow> real option \<times> nat option" where
  "closest_worker_loop hc [] person_idx acc = acc"
| "closest_worker_loop hc (person # rest) person_idx (min_distance, closest_worker) =
     (let distance = calculate_distance hc (center person)
      in if lt_inf distance min_distance \<and> distance < 150
         then closest_worker_loop hc rest (person_idx + 1) (Some distance, Some (person_idx + 1))
         else closest_worker_loop hc rest (person_idx + 1) (min_distance, closest_worker))"

text \<open>The outer loop over \<^verbatim>\<open>enumerate(hands)\<close>, filling the dictionary hand index \<open>\<mapsto>\<close> worker id.\<close>

fun associate_loop ::
  "Detection list \<Rightarrow> Detection list \<Rightarrow> nat \<Rightarrow> (nat \<rightharpoonup> nat) \<Rightarrow> (nat \<rightharpoonup> nat)" where
  "associate_loop [] persons hand_idx hand_worker_associations = hand_worker_associations"
| "associate_loop (hand # rest) persons hand_idx hand_worker_associations =
     (case snd (closest_worker_loop (center hand) persons 0 (None, None)) of
        None \<Rightarrow> associate_loop rest persons (hand_idx + 1) hand_worker_associations
      | Some closest_worker \<Rightarrow>
          associate_loop rest persons (hand_idx + 1)
            (hand_worker_associations(hand_idx \<mapsto> closest_worker)))"

definition associate_hands_with_workers ::
  "Detection list \<Rightarrow> Detection list \<Rightarrow> (nat \<rightharpoonup> nat)" where
  "associate_hands_with_workers hands persons =
     (if persons = [] then Map.empty else associate_loop hands persons 0 Map.empty)"

text \<open>Distance between the centres of hand \<open>i\<close> and person \<open>j\<close> of a frame.\<close>

definition hand_person_distance :: "Detection list \<Rightarrow> Detection list \<Rightarrow> nat \<Rightarrow> nat \<Rightarrow> real" where
  "hand_person_distance hands persons i j =
     calculate_distance (center (hands ! i)) (center (persons ! j))"

section \<open>ROI containment\<close>

text \<open>
  The loop of \<^verbatim>\<open>_point_in_polygon\<close>, run over the successive second endpoints \<open>p2\<close>;
  \<open>pip_edge\<close> is one pass through its body, on the pair \<^verbatim>\<open>(xinters, inside)\<close>.
  The variable \<^verbatim>\<open>xinters\<close> is assigned only under \<^verbatim>\<open>p1y != p2y\<close> and read afterwards:
  it is \<open>None\<close> while unbound, and reading it unbound raises (the result \<open>None\<close>), which the
  function's \<^verbatim>\<open>except\<close> turns into the answer false. Coordinates are real numbers here,
  where the code computes in double precision: a statement that needs two computations of
  \<^verbatim>\<open>xinters\<close> to agree (the two directions of one slanted segment) holds for the real numbers
  only, and the statements below on polygons of fewer than three points avoid it.
\<close>

definition pip_edge ::
  "real \<Rightarrow> real \<Rightarrow> real \<times> real \<Rightarrow> real \<times> real \<Rightarrow> real option \<times> bool \<Rightarrow> (real option \<times> bool) option" where
  "pip_edge px py p1 p2 st =
     (let p1x = fst p1; p1y = snd p1; p2x = fst p2; p2y = snd p2;
          xinters = fst st; inside = snd st in
      if py > min p1y p2y then
        if py \<le> max p1y p2y then
          if px \<le> max p1x p2x then
            (let xinters' = (if p1y \<noteq> p2y
                             then Some ((py - p1y) * (p2x - p1x) / (p2y - p1y) + p1x)
                             else xinters)
             in if p1x = p2x then Some (xinters', \<not> inside)
                else case xinters' of
                       None \<Rightarrow> None
                     | Some xi \<Rightarrow>
                         if px \<le> xi then Some (xinters', \<not> inside)
                         else Some (xinters', inside))
          else Some (xinters, inside)
        else Some (xinters, inside)
      else Some (xinters, inside))"

fun pip_loop ::
  "real \<Rightarrow> real \<Rightarrow> (real \<times> real) list \<Rightarrow> real \<times> real \<Rightarrow> real option \<times> bool \<Rightarrow> bool option" where
  "pip_loop px py [] p1 st = Some (snd st)"
| "pip_loop px py (p2 # rest) p1 st =
     (case pip_edge px py p1 p2 st of
        None \<Rightarrow> None
      | Some st' \<Rightarrow> pip_loop px py rest p2 st')"

text \<open>
  \<^verbatim>\<open>_point_in_polygon\<close>: \<^verbatim>\<open>points[0]\<close> of an empty list raises, and every exception
  gives false. The loop visits \<^verbatim>\<open>points[i % n]\<close> for \<open>i = 1, ..., n\<close>.
\<close>

definition point_in_polygon :: "real \<Rightarrow> real \<Rightarrow> (real \<times> real) list \<Rightarrow> bool" where
  "point_in_polygon px py pts =
     (case pts of
        [] \<Rightarrow> False
      | p0 # _ \<Rightarrow>
          (let n = length pts in
           case pip_loop px py (map (\<lambda>i. pts ! (i mod n)) [1..<n + 1]) p0 (None, False) of
             None \<Rightarrow> False
           | Some inside \<Rightarrow> inside))"

text \<open>\<^verbatim>\<open>(roi.width or 0)\<close>: an absent width (or height) counts as 0.\<close>

definition or0 :: "real option \<Rightarrow> real" where
  "or0 v = (case v of None \<Rightarrow> 0 | Some r \<Rightarrow> r)"

text \<open>
  \<^verbatim>\<open>_is_in_roi\<close>. A detection whose \<^verbatim>\<open>bbox\<close> dictionary is empty is rejected first; after
  that only the centre of the detection is read.
\<close>

definition is_in_roi :: "Detection \<Rightarrow> ROI \<Rightarrow> bool" where
  "is_in_roi detection roi =
     (if bbox detection = Map.empty then False
      else
        (let det_center_x = dict_get0 (center detection) ''x'';
             det_center_y = dict_get0 (center detection) ''y''
         in case (roi_shape roi = ''rectangle'', roi_x roi, roi_y roi) of
              (True, Some rx, Some ry) \<Rightarrow>
                rx \<le> det_center_x \<and> det_center_x \<le> rx + or0 (roi_width roi) \<and>
                ry \<le> det_center_y \<and> det_center_y \<le> ry + or0 (roi_height roi)
            | _ \<Rightarrow>
                (case (roi_shape roi = ''polygon'', roi_points roi) of
                   (True, Some (p # ps)) \<Rightarrow> point_in_polygon det_center_x det_center_y (p # ps)
                 | _ \<Rightarrow> False)))"

text \<open>
  The specification's even-odd rule. The horizontal ray from \<open>(px, py)\<close> towards larger
  \<open>x\<close> crosses the edge from \<open>p1\<close> to \<open>p2\<close> when \<open>py\<close> lies in the half-open range of the
  edge's \<open>y\<close> values and \<open>px\<close> is not to the right of the edge at that height; a point is
  inside when the ray crosses an odd number of the polygon's edges (each vertex joined to the
  next, the last to the first).
\<close>

definition ray_crosses :: "real \<Rightarrow> real \<Rightarrow> real \<times> real \<Rightarrow> real \<times> real \<Rightarrow> bool" where
  "ray_crosses px py p1 p2 =
     (min (snd p1) (snd p2) < py \<and> py \<le> max (snd p1) (snd p2) \<and>
      px \<le> fst p1 + (py - snd p1) * (fst p2 - fst p1) / (snd p2 - snd p1))"

definition polygon_edges :: "(real \<times> real) list \<Rightarrow> ((real \<times> real) \<times> (real \<times> real)) list" where
  "polygon_edges pts = zip pts (rotate1 pts)"

definition even_odd_inside :: "real \<Rightarrow> real \<Rightarrow> (real \<times> real) list \<Rightarrow> bool" where
  "even_odd_inside px py pts =
     odd (length (filter (\<lambda>e. ray_crosses px py (fst e) (snd e)) (polygon_edges pts)))"

text \<open>
  An axis-aligned rectangle written as a rectangle ROI and as a polygon ROI over its four
  corners, and the closed rectangle of the plane.
\<close>

definition rect_roi :: "string \<Rightarrow> real \<Rightarrow> real \<Rightarrow> real \<Rightarrow> real \<Rightarrow> ROI" where
  "rect_roi nm rx ry w h =
     \<lparr>roi_name = nm, roi_shape = ''rectangle'', roi_ingredient_type = ''unknown'',
      roi_requires_scooper = True, roi_x = Some rx, roi_y = Some ry,
      roi_width = Some w, roi_height = Some h, roi_points = None\<rparr>"

definition rect_corners :: "real \<Rightarrow> real \<Rightarrow> real \<Rightarrow> real \<Rightarrow> (real \<times> real) list" where
  "rect_corners rx ry w h = [(rx, ry), (rx + w, ry), (rx + w, ry + h), (rx, ry + h)]"

definition rect_as_polygon_roi :: "string \<Rightarrow> real \<Rightarrow> real \<Rightarrow> real \<Rightarrow> real \<Rightarrow> ROI" where
  "rect_as_polygon_roi nm rx ry w h =
     \<lparr>roi_name = nm, roi_shape = ''polygon'', roi_ingredient_type = ''unknown'',
      roi_requires_scooper = True, roi_x = None, roi_y = None,
      roi_width = None, roi_height = None, roi_points = Some (rect_corners rx ry w h)\<rparr>"

section \<open>Sequences, violation events and the detector state\<close>

text \<open>
  Wall-clock readings (\<^verbatim>\<open>datetime.now()\<close>, \<^verbatim>\<open>time.time()\<close>) are seconds on one real-valued
  clock. Each function that reads the clock takes the reading as its argument \<open>now\<close>.
\<close>

record ROISequence =
  seq_sequence_id :: string
  seq_hand_id :: string
  seq_roi_name :: string
  seq_worker_id :: "nat option"
  seq_entry_frame :: "string option"
  seq_exit_frame :: "string option"
  seq_entry_time :: real
  seq_exit_time :: "real option"
  seq_frames_in_roi :: "string list"
  seq_positions_in_roi :: "pos list"
  seq_scooper_usage_frames :: "bool list"
  seq_scooper_distances :: "real option list"
  seq_is_active :: bool
  seq_is_complete :: bool

datatype ViolationType = HAND_WITHOUT_SCOOPER | INGREDIENT_GRABBED_NO_SCOOPER | IMPROPER_HYGIENE

record Evidence =
  evd_hand_bbox :: pos
  evd_hand_center :: pos
  evd_roi_name :: string
  evd_roi_bounds :: "real option \<times> real option \<times> real option \<times> real option"
  evd_ingredient_type :: string

record ViolationEvent =
  ev_violation_id :: string
  ev_frame_id :: string
  ev_timestamp :: real
  ev_violation_type :: ViolationType
  ev_description :: string
  ev_confidence :: real
  ev_evidence :: Evidence
  ev_worker_id :: "nat option"
  ev_roi_name :: string
  ev_severity :: string
  ev_movement_pattern :: "string option"
  ev_movement_confidence :: "real option"

text \<open>
  The part of \<^verbatim>\<open>ViolationDetector\<close> that sequence tracking and the violation arbiter read
  and write. (The worker trackers, the frame buffer and the clients of the other services
  are not read by any function embedded here.)
\<close>

record ViolationDetector =
  active_sequences :: "string \<rightharpoonup> ROISequence"
  completed_sequences :: "ROISequence list"
  sequence_counter :: nat
  sequence_violations :: "string \<rightharpoonup> string"
  violation_timestamps :: "string \<rightharpoonup> real"
  violation_count :: nat

definition initial_detector :: ViolationDetector where
  "initial_detector =
     \<lparr>active_sequences = Map.empty, completed_sequences = [], sequence_counter = 0,
      sequence_violations = Map.empty, violation_timestamps = Map.empty, violation_count = 0\<rparr>"

subsection \<open>Strings built by f-strings\<close>

definition digit_char :: "nat \<Rightarrow> char" where
  "digit_char d = ''0123456789'' ! d"

fun str_nat :: "nat \<Rightarrow> string" where
  "str_nat n = (if n < 10 then [digit_char n] else str_nat (n div 10) @ [digit_char (n mod 10)])"

declare str_nat.simps [simp del]

text \<open>\<^verbatim>\<open>str.lower()\<close> on the letters A to Z; every other character is kept.\<close>

definition lower_char :: "char \<Rightarrow> char" where
  "lower_char c =
     (case map_of (zip ''ABCDEFGHIJKLMNOPQRSTUVWXYZ'' ''abcdefghijklmnopqrstuvwxyz'') c of
        None \<Rightarrow> c
      | Some l \<Rightarrow> l)"

definition lower :: "string \<Rightarrow> string" where
  "lower s = map lower_char s"

text \<open>
  \<^verbatim>\<open>hand_id = f"hand_{i}_worker_{associated_worker}" if associated_worker else f"hand_{i}"\<close>
  (a worker id of 0 is falsy), and \<^verbatim>\<open>sequence_key = f"{hand_id}_{roi.name}"\<close>.
\<close>

definition truthy_worker :: "nat option \<Rightarrow> bool" where
  "truthy_worker w = (case w of None \<Rightarrow> False | Some n \<Rightarrow> n \<noteq> 0)"

definition make_hand_id :: "nat \<Rightarrow> nat option \<Rightarrow> string" where
  "make_hand_id i associated_worker =
     (if truthy_worker associated_worker
      then ''hand_'' @ str_nat i @ ''_worker_'' @ str_nat (the associated_worker)
      else ''hand_'' @ str_nat i)"

definition make_sequence_key :: "string \<Rightarrow> string \<Rightarrow> string" where
  "make_sequence_key hand_id rname = hand_id @ ''_'' @ rname"

definition worker_info :: "nat option \<Rightarrow> string" where
  "worker_info associated_worker =
     (if truthy_worker associated_worker
      then '' (Worker '' @ str_nat (the associated_worker) @ '')''
      else '' (Unassigned)'')"

subsection \<open>Methods of \<^verbatim>\<open>ROISequence\<close>\<close>

definition new_sequence ::
  "string \<Rightarrow> string \<Rightarrow> string \<Rightarrow> nat option \<Rightarrow> string \<Rightarrow> real \<Rightarrow> ROISequence" where
  "new_sequence sequence_id hand_id rname worker_id entry_frame now =
     \<lparr>seq_sequence_id = sequence_id, seq_hand_id = hand_id, seq_roi_name = rname,
      seq_worker_id = worker_id, seq_entry_frame = Some entry_frame, seq_exit_frame = None,
      seq_entry_time = now, seq_exit_time = None, seq_frames_in_roi = [],
      seq_positions_in_roi = [], seq_scooper_usage_frames = [], seq_scooper_distances = [],
      seq_is_active = True, seq_is_complete = False\<rparr>"

definition add_frame ::
  "string \<Rightarrow> pos \<Rightarrow> bool \<Rightarrow> real option \<Rightarrow> ROISequence \<Rightarrow> ROISequence" where
  "add_frame frame_id position using_scooper scooper_distance sq =
     sq\<lparr>seq_frames_in_roi := seq_frames_in_roi sq @ [frame_id],
        seq_positions_in_roi := seq_positions_in_roi sq @ [position],
        seq_scooper_usage_frames := seq_scooper_usage_frames sq @ [using_scooper],
        seq_scooper_distances := seq_scooper_distances sq @ [scooper_distance]\<rparr>"

definition complete_sequence :: "string \<Rightarrow> real \<Rightarrow> ROISequence \<Rightarrow> ROISequence" where
  "complete_sequence exit_frame now sq =
     sq\<lparr>seq_exit_frame := Some exit_frame, seq_exit_time := Some now,
        seq_is_active := False, seq_is_complete := True\<rparr>"

subsection \<open>The violation arbiter\<close>

text \<open>\<^verbatim>\<open>_should_create_sequence_violation\<close>, with \<open>now\<close> the reading of \<^verbatim>\<open>time.time()\<close>.\<close>

definition should_create_sequence_violation ::
  "ViolationDetector \<Rightarrow> real \<Rightarrow> string \<Rightarrow> string \<Rightarrow> bool \<Rightarrow> bool" where
  "should_create_sequence_violation s now hand_id rname is_using_scooper =
     (let sequence_key = make_sequence_key hand_id rname in
      if sequence_key \<in> dom (sequence_violations s) then False
      else if (case violation_timestamps s sequence_key of
                 None \<Rightarrow> False
               | Some last_violation_time \<Rightarrow> now - last_violation_time < 30)
           then False
      else if \<not> is_using_scooper then True
      else False)"

text \<open>\<^verbatim>\<open>_mark_sequence_as_violation\<close>.\<close>

definition mark_sequence_as_violation ::
  "string \<Rightarrow> string \<Rightarrow> string \<Rightarrow> real \<Rightarrow> ViolationDetector \<Rightarrow> ViolationDetector" where
  "mark_sequence_as_violation hand_id rname violation_id now s =
     (let sequence_key = make_sequence_key hand_id rname in
      s\<lparr>sequence_violations := (sequence_violations s)(sequence_key \<mapsto> violation_id),
        violation_timestamps := (violation_timestamps s)(sequence_key \<mapsto> now)\<rparr>)"

text \<open>\<^verbatim>\<open>_create_violation\<close>: counts the violation and builds the event.\<close>

definition create_violation ::
  "ViolationType \<Rightarrow> Detection \<Rightarrow> ROI \<Rightarrow> string \<Rightarrow> string \<Rightarrow> string \<Rightarrow> real \<Rightarrow>
   ViolationDetector \<Rightarrow> ViolationDetector \<times> ViolationEvent" where
  "create_violation violation_type hand roi frame_id description severity now s =
     (let s' = s\<lparr>violation_count := violation_count s + 1\<rparr> in
      (s',
       \<lparr>ev_violation_id = ''violation_'' @ str_nat (violation_count s') @ ''_'' @ frame_id,
        ev_frame_id = frame_id,
        ev_timestamp = now,
        ev_violation_type = violation_type,
        ev_description = description,
        ev_confidence = confidence hand,
        ev_evidence =
          \<lparr>evd_hand_bbox = bbox hand, evd_hand_center = center hand,
           evd_roi_name = roi_name roi,
           evd_roi_bounds = (roi_x roi, roi_y roi, roi_width roi, roi_height roi),
           evd_ingredient_type = roi_ingredient_type roi\<rparr>,
        ev_worker_id = None,
        ev_roi_name = roi_name roi,
        ev_severity = severity,
        ev_movement_pattern = None,
        ev_movement_confidence = None\<rparr>))"

text \<open>
  The attribute read \<^verbatim>\<open>sequence_violation.id\<close> of \<^verbatim>\<open>_detect_violations\<close>. The class
  \<^verbatim>\<open>ViolationEvent\<close> declares the fields \<^verbatim>\<open>violation_id\<close>, \<^verbatim>\<open>frame_id\<close>, \<^verbatim>\<open>timestamp\<close>,
  \<^verbatim>\<open>violation_type\<close>, \<^verbatim>\<open>description\<close>, \<^verbatim>\<open>confidence\<close>, \<^verbatim>\<open>evidence\<close>, \<^verbatim>\<open>worker_id\<close>,
  \<^verbatim>\<open>roi_name\<close>, \<^verbatim>\<open>severity\<close>, \<^verbatim>\<open>movement_pattern\<close> and \<^verbatim>\<open>movement_confidence\<close>, and none
  named \<^verbatim>\<open>id\<close>: reading the attribute raises \<^verbatim>\<open>AttributeError\<close>, the result \<open>None\<close>.
\<close>

definition attr_id :: "ViolationEvent \<Rightarrow> string option" where
  "attr_id ev = None"

subsection \<open>Sequence tracking\<close>

text \<open>\<^verbatim>\<open>_update_roi_sequence\<close>; \<open>now\<close> is the entry time a new sequence gets from \<^verbatim>\<open>__post_init__\<close>.\<close>

definition update_roi_sequence ::
  "string \<Rightarrow> string \<Rightarrow> string \<Rightarrow> pos \<Rightarrow> bool \<Rightarrow> real option \<Rightarrow> nat option \<Rightarrow> real \<Rightarrow>
   ViolationDetector \<Rightarrow> ViolationDetector" where
  "update_roi_sequence hand_id rname frame_id hand_position using_scooper scooper_distance
     worker_id now s =
     (let sequence_key = make_sequence_key hand_id rname in
      case active_sequences s sequence_key of
        Some sq \<Rightarrow>
          s\<lparr>active_sequences := (active_sequences s)
               (sequence_key \<mapsto> add_frame frame_id hand_position using_scooper scooper_distance sq)\<rparr>
      | None \<Rightarrow>
          (let counter = sequence_counter s + 1;
               sq = new_sequence (''seq_'' @ str_nat counter) hand_id rname worker_id frame_id now
           in s\<lparr>sequence_counter := counter,
                active_sequences := (active_sequences s)
                  (sequence_key \<mapsto> add_frame frame_id hand_position using_scooper scooper_distance sq)\<rparr>))"

text \<open>\<^verbatim>\<open>_check_sequence_completion\<close>; \<open>now\<close> is the exit time set by \<^verbatim>\<open>complete_sequence\<close>.\<close>

definition check_sequence_completion ::
  "string \<Rightarrow> string \<Rightarrow> string \<Rightarrow> real \<Rightarrow> ViolationDetector \<Rightarrow> ViolationDetector" where
  "check_sequence_completion hand_id rname frame_id now s =
     (let sequence_key = make_sequence_key hand_id rname in
      case active_sequences s sequence_key of
        None \<Rightarrow> s
      | Some sq \<Rightarrow>
          s\<lparr>completed_sequences := completed_sequences s @ [complete_sequence frame_id now sq],
            active_sequences := (active_sequences s)(sequence_key := None),
            sequence_violations := (sequence_violations s)(sequence_key := None),
            violation_timestamps := (violation_timestamps s)(sequence_key := None)\<rparr>)"

subsection \<open>The two janitors\<close>

text \<open>\<^verbatim>\<open>_cleanup_old_sequences\<close>; \<^verbatim>\<open>xs[-50:]\<close> keeps the last 50 elements.\<close>

definition cleanup_old_sequences :: "real \<Rightarrow> ViolationDetector \<Rightarrow> ViolationDetector" where
  "cleanup_old_sequences current_time s =
     s\<lparr>completed_sequences :=
         (if length (completed_sequences s) > 50
          then drop (length (completed_sequences s) - 50) (completed_sequences s)
          else completed_sequences s),
       active_sequences :=
         (\<lambda>sequence_key.
            case active_sequences s sequence_key of
              None \<Rightarrow> None
            | Some sq \<Rightarrow> if current_time - seq_entry_time sq > 30 then None else Some sq)\<rparr>"

text \<open>\<^verbatim>\<open>_cleanup_old_violation_timestamps\<close>.\<close>

definition cleanup_old_violation_timestamps :: "real \<Rightarrow> ViolationDetector \<Rightarrow> ViolationDetector" where
  "cleanup_old_violation_timestamps current_time s =
     s\<lparr>violation_timestamps :=
         (\<lambda>sequence_key.
            case violation_timestamps s sequence_key of
              None \<Rightarrow> None
            | Some ts \<Rightarrow> if current_time - ts > 60 then None else Some ts)\<rparr>"

section \<open>Analysing one frame\<close>

text \<open>
  The \<^verbatim>\<open>try\<close> block of \<^verbatim>\<open>_detect_violations\<close> that runs when a violation is needed. The
  event is created, gets its worker id and is appended to \<^verbatim>\<open>violations\<close>; the next
  statement formats \<^verbatim>\<open>sequence_violation.id\<close>. When that read raises, the handler
  \<^verbatim>\<open>except Exception\<close> only prints, so the rest of the block, the call of
  \<^verbatim>\<open>_mark_sequence_as_violation\<close> included, is skipped, and the appended event stays.
\<close>

definition try_create_sequence_violation ::
  "real \<Rightarrow> string \<Rightarrow> nat \<Rightarrow> Detection \<Rightarrow> nat option \<Rightarrow> ROI \<Rightarrow> string \<Rightarrow>
   ViolationDetector \<times> ViolationEvent list \<Rightarrow> ViolationDetector \<times> ViolationEvent list" where
  "try_create_sequence_violation now frame_id i hand associated_worker roi hand_id st =
     (let created = create_violation HAND_WITHOUT_SCOOPER hand roi frame_id
                      (''Hand '' @ str_nat (i + 1) @ worker_info associated_worker @ '' in '' @
                       roi_name roi @ '' without scooper (complete sequence)'')
                      ''high'' now (fst st);
          sequence_violation = (snd created)\<lparr>ev_worker_id := associated_worker\<rparr>;
          violations = snd st @ [sequence_violation]
      in case attr_id sequence_violation of
           None \<Rightarrow> (fst created, violations)
         | Some violation_id \<Rightarrow>
             (mark_sequence_as_violation hand_id (roi_name roi) violation_id now (fst created),
              violations))"

text \<open>The event that block appends: the created violation with its worker id set.\<close>

definition entry_event :: "real \<Rightarrow> string \<Rightarrow> nat \<Rightarrow> Detection \<Rightarrow> nat option \<Rightarrow> ROI \<Rightarrow> ViolationDetector \<Rightarrow> ViolationEvent" where
  "entry_event now frame_id i hand w roi s =
     (snd (create_violation HAND_WITHOUT_SCOOPER hand roi frame_id
             (''Hand '' @ str_nat (i + 1) @ worker_info w @ '' in '' @
              roi_name roi @ '' without scooper (complete sequence)'')
             ''high'' now s))\<lparr>ev_worker_id := w\<rparr>"

text \<open>
  The body of the two nested loops of \<^verbatim>\<open>_detect_violations\<close>, for hand number \<open>i\<close> and one
  ROI, on the pair of the detector and the list \<^verbatim>\<open>violations\<close>.
\<close>

definition hand_roi_step ::
  "bool \<Rightarrow> real \<Rightarrow> string \<Rightarrow> Detection list \<Rightarrow> nat \<Rightarrow> Detection \<Rightarrow> nat option \<Rightarrow> ROI \<Rightarrow>
   ViolationDetector \<times> ViolationEvent list \<Rightarrow> ViolationDetector \<times> ViolationEvent list" where
  "hand_roi_step allow_nearby now frame_id scoopers i hand associated_worker roi st =
     (let hand_id = make_hand_id i associated_worker;
          sequence_key = make_sequence_key hand_id (roi_name roi)
      in if roi_requires_scooper roi \<and> is_in_roi hand roi then
           (let is_new_entry = (sequence_key \<notin> dom (active_sequences (fst st)));
                is_using_scooper = is_hand_using_scooper_simple allow_nearby hand scoopers;
                closest_scooper_distance = get_closest_scooper_distance hand scoopers;
                st1 = (if is_new_entry
                       then (if should_create_sequence_violation (fst st) now hand_id
                                  (roi_name roi) is_using_scooper
                             then try_create_sequence_violation now frame_id i hand
                                    associated_worker roi hand_id st
                             else st)
                       else st)
            in (update_roi_sequence hand_id (roi_name roi) frame_id (center hand)
                  is_using_scooper closest_scooper_distance associated_worker now (fst st1),
                snd st1))
         else (check_sequence_completion hand_id (roi_name roi) frame_id now (fst st), snd st))"

fun rois_loop ::
  "bool \<Rightarrow> real \<Rightarrow> string \<Rightarrow> Detection list \<Rightarrow> nat \<Rightarrow> Detection \<Rightarrow> nat option \<Rightarrow> ROI list \<Rightarrow>
   ViolationDetector \<times> ViolationEvent list \<Rightarrow> ViolationDetector \<times> ViolationEvent list" where
  "rois_loop allow_nearby now frame_id scoopers i hand w [] st = st"
| "rois_loop allow_nearby now frame_id scoopers i hand w (roi # rois) st =
     rois_loop allow_nearby now frame_id scoopers i hand w rois
       (hand_roi_step allow_nearby now frame_id scoopers i hand w roi st)"

fun hands_loop ::
  "bool \<Rightarrow> real \<Rightarrow> string \<Rightarrow> Detection list \<Rightarrow> (nat \<rightharpoonup> nat) \<Rightarrow> ROI list \<Rightarrow> nat \<Rightarrow>
   Detection list \<Rightarrow> ViolationDetector \<times> ViolationEvent list \<Rightarrow>
   ViolationDetector \<times> ViolationEvent list" where
  "hands_loop allow_nearby now frame_id scoopers assoc rois i [] st = st"
| "hands_loop allow_nearby now frame_id scoopers assoc rois i (hand # hands) st =
     hands_loop allow_nearby now frame_id scoopers assoc rois (i + 1) hands
       (rois_loop allow_nearby now frame_id scoopers i hand (assoc i) rois st)"

definition hands_of :: "Detection list \<Rightarrow> Detection list" where
  "hands_of detections = filter (\<lambda>d. lower (class_name d) \<in> set [''hand'', ''hands'']) detections"

definition persons_of :: "Detection list \<Rightarrow> Detection list" where
  "persons_of detections =
     filter (\<lambda>d. lower (class_name d) \<in> set [''person'', ''people'']) detections"

definition scoopers_of :: "Detection list \<Rightarrow> Detection list" where
  "scoopers_of detections =
     filter (\<lambda>d. lower (class_name d) \<in> set [''scooper'', ''scoopers'', ''spoon'', ''utensil''])
       detections"

text \<open>
  \<^verbatim>\<open>_detect_violations\<close>. One clock reading \<open>now\<close> serves the whole call: the frame is
  taken to be processed in no time. Saving the violations to the database changes nothing
  of the detector and fails silently, so it is left out; the call ends with the two janitors
  and returns the list \<^verbatim>\<open>violations\<close>.
\<close>

definition detect_violations ::
  "bool \<Rightarrow> real \<Rightarrow> Detection list \<Rightarrow> ROI list \<Rightarrow> string \<Rightarrow> ViolationDetector \<Rightarrow>
   ViolationDetector \<times> ViolationEvent list" where
  "detect_violations allow_nearby now detections rois frame_id s =
     (let hands = hands_of detections;
          persons = persons_of detections;
          scoopers = scoopers_of detections;
          hand_worker_associations = associate_hands_with_workers hands persons;
          st = hands_loop allow_nearby now frame_id scoopers hand_worker_associations rois 0
                 hands (s, [])
      in (cleanup_old_violation_timestamps now (cleanup_old_sequences now (fst st)), snd st))"

subsection \<open>Parsing the detections of a request\<close>

text \<open>
  The \<^verbatim>\<open>confidence\<close> entry of a detection dictionary: absent, \<^verbatim>\<open>null\<close>, or a number.
\<close>

datatype conf_entry = Missing | Null | Num real

record RawDetection =
  raw_class_name :: string
  raw_confidence :: conf_entry
  raw_bbox :: pos
  raw_center :: pos
  raw_area :: real

definition parsed_confidence :: "conf_entry \<Rightarrow> real" where
  "parsed_confidence c = (case c of Missing \<Rightarrow> 0 | Null \<Rightarrow> 0 | Num v \<Rightarrow> v)"

definition replace_Z :: "string \<Rightarrow> string" where
  "replace_Z ts = concat (map (\<lambda>c. if c = CHR ''Z'' then ''+00:00'' else [c]) ts)"

text \<open>
  \<^verbatim>\<open>_parse_detections\<close>. The library function \<^verbatim>\<open>datetime.fromisoformat\<close> is the
  parameter \<open>fromisoformat\<close>, \<open>None\<close> where it raises; the exception leaves the function.
\<close>

fun parse_detections ::
  "(string \<Rightarrow> real option) \<Rightarrow> RawDetection list \<Rightarrow> string \<Rightarrow> string \<Rightarrow> Detection list option" where
  "parse_detections fromisoformat [] frame_id ts = Some []"
| "parse_detections fromisoformat (d # rest) frame_id ts =
     (case fromisoformat (replace_Z ts) of
        None \<Rightarrow> None
      | Some t \<Rightarrow>
          (case parse_detections fromisoformat rest frame_id ts of
             None \<Rightarrow> None
           | Some detections \<Rightarrow>
               Some (\<lparr>class_name = raw_class_name d,
                      confidence = parsed_confidence (raw_confidence d),
                      bbox = raw_bbox d, center = raw_center d, area = raw_area d,
                      det_frame_id = frame_id, det_timestamp = t\<rparr> # detections)))"

text \<open>A run of analysis calls: each frame comes with its clock reading.\<close>

record Frame =
  fr_now :: real
  fr_frame_id :: string
  fr_detections :: "Detection list"
  fr_rois :: "ROI list"

fun run_frames ::
  "bool \<Rightarrow> Frame list \<Rightarrow> ViolationDetector \<Rightarrow> ViolationDetector \<times> ViolationEvent list list" where
  "run_frames allow_nearby [] s = (s, [])"
| "run_frames allow_nearby (f # fs) s =
     (let r = detect_violations allow_nearby (fr_now f) (fr_detections f) (fr_rois f)
                (fr_frame_id f) s;
          r' = run_frames allow_nearby fs (fst r)
      in (fst r', snd r # snd r'))"

subsection \<open>Parsing the ROIs of a request\<close>





subsection \<open>An analysis call\<close>






subsection \<open>Notions used in the statements\<close>


text \<open>
  What an event of the entry-frame path takes from the pass that creates it: the pass is for
  hand number \<open>i\<close> of the frame (counted from 0), associated with worker \<open>w\<close>, and for the
  ROI \<open>roi\<close>.
\<close>

definition entry_event_for :: "nat \<Rightarrow> Detection \<Rightarrow> nat option \<Rightarrow> ROI \<Rightarrow> ViolationEvent \<Rightarrow> bool" where
  "entry_event_for i hand w roi ev =
     (ev_violation_type ev = HAND_WITHOUT_SCOOPER \<and> ev_severity ev = ''high'' \<and>
      ev_confidence ev = confidence hand \<and>
      evd_hand_center (ev_evidence ev) = center hand \<and>
      evd_hand_bbox (ev_evidence ev) = bbox hand \<and>
      ev_roi_name ev = roi_name roi \<and> evd_roi_name (ev_evidence ev) = roi_name roi \<and>
      ev_worker_id ev = w \<and>
      ev_description ev =
        ''Hand '' @ str_nat (i + 1) @ worker_info w @ '' in '' @ roi_name roi @
        '' without scooper (complete sequence)'')"

section \<open>Example data\<close>

text \<open>
  A detection of a class with its centre at \<open>(cx, cy)\<close> and a 40 by 40 bounding box, and
  the rectangle ROI \<^verbatim>\<open>[500, 400, 200, 200]\<close> of the specification's scenarios.
\<close>

definition det_at :: "string \<Rightarrow> real \<Rightarrow> real \<Rightarrow> Detection" where
  "det_at cls cx cy =
     \<lparr>class_name = cls, confidence = 9 / 10,
      bbox = [''x1'' \<mapsto> cx - 20, ''y1'' \<mapsto> cy - 20, ''x2'' \<mapsto> cx + 20, ''y2'' \<mapsto> cy + 20],
      center = [''x'' \<mapsto> cx, ''y'' \<mapsto> cy], area = 1600,
      det_frame_id = [], det_timestamp = 0\<rparr>"

definition roi_A :: ROI where
  "roi_A = rect_roi ''A'' 500 400 200 200"

text \<open>A request's detection of a hand at \<open>(520, 420)\<close> whose confidence entry is null.\<close>

definition raw_hand_null :: RawDetection where
  "raw_hand_null =
     \<lparr>raw_class_name = ''hand'', raw_confidence = Null,
      raw_bbox = [''x1'' \<mapsto> 500, ''y1'' \<mapsto> 400, ''x2'' \<mapsto> 540, ''y2'' \<mapsto> 440],
      raw_center = [''x'' \<mapsto> 520, ''y'' \<mapsto> 420], raw_area = 1600\<rparr>"

text \<open>
  Scenario 4 of the specification, with no scooper in any frame: the hand is inside ROI
  \<open>A\<close> at time 0, outside at time 1, and inside again at time 2.
\<close>

definition reentry_frames :: "Frame list" where
  "reentry_frames =
     [\<lparr>fr_now = 0, fr_frame_id = ''frame_1'', fr_detections = [det_at ''hand'' 520 420],
       fr_rois = [roi_A]\<rparr>,
      \<lparr>fr_now = 1, fr_frame_id = ''frame_2'', fr_detections = [det_at ''hand'' 100 100],
       fr_rois = [roi_A]\<rparr>,
      \<lparr>fr_now = 2, fr_frame_id = ''frame_3'', fr_detections = [det_at ''hand'' 520 420],
       fr_rois = [roi_A]\<rparr>]"


text \<open>
  Two hands in one frame: hand 0 with confidence 1/2 outside ROI \<open>A\<close>, hand 1 with
  confidence 9/10 inside it.
\<close>

definition two_hands :: "Detection list" where
  "two_hands = [(det_at ''hand'' 100 100)\<lparr>confidence := 1 / 2\<rparr>, det_at ''hand'' 520 420]"








section \<open>Properties of the simple classifier\<close>

lemma closest_loop_Some:
  "closest_loop hc ss (Some c) =
     Some (Min (insert c ((\<lambda>s. calculate_distance hc (center s)) ` set ss)))"
proof (induction ss arbitrary: c)
  case Nil
  then show ?case by simp
next
  case (Cons s ss)
  let ?d = "calculate_distance hc (center s)"
  let ?D = "(\<lambda>s. calculate_distance hc (center s)) ` set ss"
  have fin: "finite ?D" by simp
  have "Min (insert (min ?d c) ?D) = Min (insert c (insert ?d ?D))"
  proof (cases "?D = {}")
    case True
    then show ?thesis by (simp add: min.commute)
  next
    case False
    then show ?thesis using fin
      by (simp add: min.assoc min.commute min.left_commute)
  qed
  then show ?case
    using Cons.IH [of "min ?d c"] Cons.IH [of c]
    by (auto simp: lt_inf_def Let_def min_def split: if_splits)
qed

lemma closest_loop_None:
  "ss \<noteq> [] \<Longrightarrow>
   closest_loop hc ss None = Some (Min ((\<lambda>s. calculate_distance hc (center s)) ` set ss))"
  by (cases ss) (simp_all add: lt_inf_def closest_loop_Some)

lemma closest_is_min:
  "scoopers \<noteq> [] \<Longrightarrow>
   closest_loop (center hand) scoopers None = Some (min_center_distance hand scoopers)"
  by (simp add: closest_loop_None min_center_distance_def)

lemma sqrt_square_nonneg: "0 \<le> a \<Longrightarrow> sqrt (a * a) = (a::real)"
  by simp

text \<open>
  C4. The simple classifier answers false when the frame has no scooper. With at least one
  scooper, and \<open>d\<close> the minimum centre-to-centre distance (which is also what
  \<open>get_closest_scooper_distance\<close> reports): it answers true for \<open>d \<le> 50\<close>, answers exactly
  the fallback setting for \<open>50 < d \<le> 100\<close>, and answers false for \<open>d > 100\<close>.
\<close>

theorem simple_classifier_tiers:
  "(scoopers = [] \<longrightarrow> is_hand_using_scooper_simple allow_nearby hand scoopers = False) \<and>
   (scoopers \<noteq> [] \<longrightarrow>
      get_closest_scooper_distance hand scoopers = Some (min_center_distance hand scoopers) \<and>
      (min_center_distance hand scoopers \<le> 50 \<longrightarrow>
         is_hand_using_scooper_simple allow_nearby hand scoopers = True) \<and>
      (50 < min_center_distance hand scoopers \<and> min_center_distance hand scoopers \<le> 100 \<longrightarrow>
         is_hand_using_scooper_simple allow_nearby hand scoopers = allow_nearby) \<and>
      (100 < min_center_distance hand scoopers \<longrightarrow>
         is_hand_using_scooper_simple allow_nearby hand scoopers = False))"
  by (simp add: is_hand_using_scooper_simple_def get_closest_scooper_distance_def closest_is_min)

lemma center_det_at:
  "dict_get0 (center (det_at cls cx cy)) ''x'' = cx"
  "dict_get0 (center (det_at cls cx cy)) ''y'' = cy"
  by (simp_all add: det_at_def dict_get0_def)

lemma distance_det_at:
  "calculate_distance (center (det_at c1 x1 y1)) (center (det_at c2 x2 y2)) =
     sqrt ((x1 - x2)\<^sup>2 + (y1 - y2)\<^sup>2)"
  by (simp add: calculate_distance_def center_det_at)

lemma distance_scenario_3:
  "50 < calculate_distance (center (det_at ''hand'' 520 420)) (center (det_at ''scooper'' 560 460))"
  "calculate_distance (center (det_at ''hand'' 520 420)) (center (det_at ''scooper'' 560 460)) \<le> 100"
proof -
  have "(50::real)\<^sup>2 < 3200" by simp
  then have "50 < sqrt 3200" by (rule real_less_rsqrt)
  then show "50 < calculate_distance (center (det_at ''hand'' 520 420))
                    (center (det_at ''scooper'' 560 460))"
    by (simp add: distance_det_at)
  have "sqrt 3200 \<le> 100" by (rule real_le_lsqrt) simp_all
  then show "calculate_distance (center (det_at ''hand'' 520 420))
               (center (det_at ''scooper'' 560 460)) \<le> 100"
    by (simp add: distance_det_at)
qed

theorem simple_classifier_tiers_witness:
  "[det_at ''scooper'' 560 460] \<noteq> [] \<and>
   50 < min_center_distance (det_at ''hand'' 520 420) [det_at ''scooper'' 560 460] \<and>
   min_center_distance (det_at ''hand'' 520 420) [det_at ''scooper'' 560 460] \<le> 100 \<and>
   is_hand_using_scooper_simple False (det_at ''hand'' 520 420) [det_at ''scooper'' 560 460] = False"
  using simple_classifier_tiers [of "[det_at ''scooper'' 560 460]" False "det_at ''hand'' 520 420"]
    distance_scenario_3
  by (simp add: min_center_distance_def)

section \<open>Effects of the operations on the detector\<close>

lemma update_roi_sequence_fields:
  "sequence_violations (update_roi_sequence h r f p u d w t s) = sequence_violations s"
  "violation_timestamps (update_roi_sequence h r f p u d w t s) = violation_timestamps s"
  "completed_sequences (update_roi_sequence h r f p u d w t s) = completed_sequences s"
  "violation_count (update_roi_sequence h r f p u d w t s) = violation_count s"
  by (simp_all add: update_roi_sequence_def Let_def split: option.splits)

lemma update_roi_sequence_dom:
  "dom (active_sequences (update_roi_sequence h r f p u d w t s)) =
     insert (make_sequence_key h r) (dom (active_sequences s))"
  by (auto simp: update_roi_sequence_def Let_def split: option.splits)

lemma try_create_fst:
  "active_sequences (fst (try_create_sequence_violation t f i hand w roi h st)) = active_sequences (fst st)"
  "completed_sequences (fst (try_create_sequence_violation t f i hand w roi h st)) = completed_sequences (fst st)"
  "sequence_violations (fst (try_create_sequence_violation t f i hand w roi h st)) = sequence_violations (fst st)"
  "violation_timestamps (fst (try_create_sequence_violation t f i hand w roi h st)) = violation_timestamps (fst st)"
  by (simp_all add: try_create_sequence_violation_def create_violation_def attr_id_def Let_def)

lemma try_create_snd:
  "snd (try_create_sequence_violation t f i hand w roi h st) = snd st @ [entry_event t f i hand w roi (fst st)]"
  by (simp add: try_create_sequence_violation_def attr_id_def Let_def entry_event_def)

lemma entry_event_fields:
  "ev_violation_type (entry_event t f i hand w roi s) = HAND_WITHOUT_SCOOPER"
  "ev_severity (entry_event t f i hand w roi s) = ''high''"
  "ev_confidence (entry_event t f i hand w roi s) = confidence hand"
  "ev_timestamp (entry_event t f i hand w roi s) = t"
  "ev_frame_id (entry_event t f i hand w roi s) = f"
  "ev_roi_name (entry_event t f i hand w roi s) = roi_name roi"
  "ev_worker_id (entry_event t f i hand w roi s) = w"
  by (simp_all add: entry_event_def create_violation_def Let_def)

lemma hand_roi_step_snd:
  "snd (hand_roi_step al t f scs i hand w roi st) =
     (if roi_requires_scooper roi \<and> is_in_roi hand roi \<and>
         make_sequence_key (make_hand_id i w) (roi_name roi) \<notin> dom (active_sequences (fst st)) \<and>
         should_create_sequence_violation (fst st) t (make_hand_id i w) (roi_name roi)
           (is_hand_using_scooper_simple al hand scs)
      then snd st @ [entry_event t f i hand w roi (fst st)]
      else snd st)"
  by (simp add: hand_roi_step_def Let_def try_create_snd)

lemma should_create_cases:
  "should_create_sequence_violation s t h r u =
     (make_sequence_key h r \<notin> dom (sequence_violations s) \<and>
      (case violation_timestamps s (make_sequence_key h r) of None \<Rightarrow> True | Some l \<Rightarrow> 30 \<le> t - l) \<and>
      \<not> u)"
  by (auto simp: should_create_sequence_violation_def Let_def split: option.splits)

lemma hand_roi_step_inside_dom:
  "roi_requires_scooper roi \<Longrightarrow> is_in_roi hand roi \<Longrightarrow>
   dom (active_sequences (fst (hand_roi_step al t f scs i hand w roi st))) =
     insert (make_sequence_key (make_hand_id i w) (roi_name roi)) (dom (active_sequences (fst st)))"
  by (simp add: hand_roi_step_def Let_def update_roi_sequence_dom try_create_fst)

lemma hand_roi_step_inside_maps:
  "roi_requires_scooper roi \<Longrightarrow> is_in_roi hand roi \<Longrightarrow>
   sequence_violations (fst (hand_roi_step al t f scs i hand w roi st)) = sequence_violations (fst st) \<and>
   violation_timestamps (fst (hand_roi_step al t f scs i hand w roi st)) = violation_timestamps (fst st) \<and>
   completed_sequences (fst (hand_roi_step al t f scs i hand w roi st)) = completed_sequences (fst st)"
  by (simp add: hand_roi_step_def Let_def update_roi_sequence_fields try_create_fst)

lemma hand_roi_step_outside:
  "\<not> (roi_requires_scooper roi \<and> is_in_roi hand roi) \<Longrightarrow>
   hand_roi_step al t f scs i hand w roi st =
     (check_sequence_completion (make_hand_id i w) (roi_name roi) f t (fst st), snd st)"
  unfolding hand_roi_step_def Let_def by (simp only: if_False)

section \<open>Evaluating the examples\<close>

lemma str_nat_digit: "n < 10 \<Longrightarrow> str_nat n = [digit_char n]"
  by (simp add: str_nat.simps)

lemma str_nat_0_1: "str_nat 0 = ''0''" "str_nat 1 = ''1''"
  by (simp_all add: str_nat_digit digit_char_def)


lemma roi_A_inside:
  "roi_requires_scooper roi_A" "is_in_roi (det_at c 520 420) roi_A" "\<not> is_in_roi (det_at c 100 100) roi_A"
  by (simp_all add: is_in_roi_def det_at_def roi_A_def rect_roi_def dict_get0_def or0_def)

lemma using_scooper_close:
  "is_hand_using_scooper_simple al (det_at ''hand'' 520 420) [det_at ''scooper'' 520 430]"
proof -
  have "sqrt ((10::real) * 10) = 10" by (rule sqrt_square_nonneg) simp
  then show ?thesis
    by (simp add: is_hand_using_scooper_simple_def distance_det_at lt_inf_def)
qed

section \<open>Compliance at the entry frame\<close>

text \<open>
  C3. A pass of the loop body in which the hand counts as using a scooper creates no event,
  so a sequence that opens with the scooper in use opens without a violation; a pass for a
  key whose sequence is already open creates no event whatever the classifier says in that
  frame, since the arbiter is only asked on entry; the pass with the hand inside leaves the
  sequence open; and the arbiter never asks for a violation when the scooper is in use.
\<close>

theorem compliant_entry_no_violation:
  "(is_hand_using_scooper_simple al hand scs \<longrightarrow>
      snd (hand_roi_step al t f scs i hand w roi st) = snd st) \<and>
   (make_sequence_key (make_hand_id i w) (roi_name roi) \<in> dom (active_sequences (fst st)) \<longrightarrow>
      snd (hand_roi_step al t f scs i hand w roi st) = snd st) \<and>
   (roi_requires_scooper roi \<and> is_in_roi hand roi \<longrightarrow>
      make_sequence_key (make_hand_id i w) (roi_name roi)
        \<in> dom (active_sequences (fst (hand_roi_step al t f scs i hand w roi st)))) \<and>
   should_create_sequence_violation s t hid rn True = False"
proof -
  have a: "is_hand_using_scooper_simple al hand scs \<Longrightarrow>
      snd (hand_roi_step al t f scs i hand w roi st) = snd st"
    by (simp add: hand_roi_step_snd should_create_cases)
  have b: "make_sequence_key (make_hand_id i w) (roi_name roi) \<in> dom (active_sequences (fst st)) \<Longrightarrow>
      snd (hand_roi_step al t f scs i hand w roi st) = snd st"
    by (simp add: hand_roi_step_snd)
  have d: "roi_requires_scooper roi \<and> is_in_roi hand roi \<Longrightarrow>
      make_sequence_key (make_hand_id i w) (roi_name roi)
        \<in> dom (active_sequences (fst (hand_roi_step al t f scs i hand w roi st)))"
    by (simp add: hand_roi_step_inside_dom)
  have e: "should_create_sequence_violation s t hid rn True = False"
    by (simp add: should_create_cases)
  from a b d e show ?thesis by blast
qed

theorem compliant_entry_no_violation_witness:
  "is_hand_using_scooper_simple False (det_at ''hand'' 520 420) [det_at ''scooper'' 520 430] \<and>
   roi_requires_scooper roi_A \<and> is_in_roi (det_at ''hand'' 520 420) roi_A \<and>
   snd (hand_roi_step False 0 ''frame_1'' [det_at ''scooper'' 520 430] 0 (det_at ''hand'' 520 420) None roi_A
          (initial_detector, [])) = [] \<and>
   make_sequence_key (make_hand_id 0 None) (roi_name roi_A)
     \<in> dom (active_sequences
         (fst (hand_roi_step False 0 ''frame_1'' [det_at ''scooper'' 520 430] 0 (det_at ''hand'' 520 420) None
                roi_A (initial_detector, [])))) \<and>
   snd (hand_roi_step False 1 ''frame_2'' [] 0 (det_at ''hand'' 520 420) None roi_A
          (fst (hand_roi_step False 0 ''frame_1'' [det_at ''scooper'' 520 430] 0 (det_at ''hand'' 520 420) None
                 roi_A (initial_detector, [])), [])) = []"
  using
    compliant_entry_no_violation [of False "det_at ''hand'' 520 420" "[det_at ''scooper'' 520 430]" 0
      "''frame_1''" 0 None roi_A "(initial_detector, [])"]
    compliant_entry_no_violation [of False "det_at ''hand'' 520 420" "[]" 1
      "''frame_2''" 0 None roi_A
      "(fst (hand_roi_step False 0 ''frame_1'' [det_at ''scooper'' 520 430] 0 (det_at ''hand'' 520 420) None
                 roi_A (initial_detector, [])), [])"]
  by (simp add: using_scooper_close roi_A_inside)

section \<open>Parsing detections\<close>

lemma parse_detections_confidence:
  "parse_detections fromiso raws fid ts = Some dets \<Longrightarrow>
   map confidence dets = map (\<lambda>d. parsed_confidence (raw_confidence d)) raws"
  by (induction raws arbitrary: dets) (auto split: option.splits)

section \<open>Frames with one hand and one ROI\<close>

lemma classes_of_hand:
  "hands_of [det_at ''hand'' a b] = [det_at ''hand'' a b]"
  "persons_of [det_at ''hand'' a b] = []"
  "scoopers_of [det_at ''hand'' a b] = []"
  by (simp_all add: hands_of_def persons_of_def scoopers_of_def det_at_def lower_def lower_char_def)

lemma detect_violations_single:
  "hands_of dets = [hand] \<Longrightarrow> persons_of dets = [] \<Longrightarrow>
   detect_violations al t dets [roi] f s =
     (cleanup_old_violation_timestamps t (cleanup_old_sequences t
        (fst (hand_roi_step al t f (scoopers_of dets) 0 hand None roi (s, [])))),
      snd (hand_roi_step al t f (scoopers_of dets) 0 hand None roi (s, [])))"
  by (simp add: detect_violations_def Let_def associate_hands_with_workers_def)

lemma confidence_det_at: "confidence (det_at c a b) = 9 / 10"
  by (simp add: det_at_def)

lemma not_using_without_scoopers: "\<not> is_hand_using_scooper_simple al hand []"
  by (simp add: is_hand_using_scooper_simple_def)

section \<open>The janitors\<close>

lemma cleanup_old_sequences_fields:
  "sequence_violations (cleanup_old_sequences t s) = sequence_violations s"
  "violation_timestamps (cleanup_old_sequences t s) = violation_timestamps s"
  "violation_count (cleanup_old_sequences t s) = violation_count s"
  "sequence_counter (cleanup_old_sequences t s) = sequence_counter s"
  by (simp_all add: cleanup_old_sequences_def)


lemma cleanup_old_sequences_active:
  "active_sequences (cleanup_old_sequences t s) k =
     (case active_sequences s k of
        None \<Rightarrow> None
      | Some sq \<Rightarrow> if t - seq_entry_time sq > 30 then None else Some sq)"
  by (simp add: cleanup_old_sequences_def)

lemma cleanup_old_violation_timestamps_fields:
  "sequence_violations (cleanup_old_violation_timestamps t s) = sequence_violations s"
  "active_sequences (cleanup_old_violation_timestamps t s) = active_sequences s"
  "completed_sequences (cleanup_old_violation_timestamps t s) = completed_sequences s"
  by (simp_all add: cleanup_old_violation_timestamps_def)

lemma cleanup_old_violation_timestamps_map:
  "violation_timestamps (cleanup_old_violation_timestamps t s) k =
     (case violation_timestamps s k of
        None \<Rightarrow> None
      | Some ts \<Rightarrow> if t - ts > 60 then None else Some ts)"
  by (simp add: cleanup_old_violation_timestamps_def)



section \<open>What purges the registries\<close>

lemma check_sequence_completion_maps:
  "sequence_violations (check_sequence_completion h r f t s) =
     (if make_sequence_key h r \<in> dom (active_sequences s)
      then (sequence_violations s)(make_sequence_key h r := None) else sequence_violations s)"
  "violation_timestamps (check_sequence_completion h r f t s) =
     (if make_sequence_key h r \<in> dom (active_sequences s)
      then (violation_timestamps s)(make_sequence_key h r := None) else violation_timestamps s)"
  "active_sequences (check_sequence_completion h r f t s) =
     (active_sequences s)(make_sequence_key h r := None)"
  by (auto simp: check_sequence_completion_def Let_def split: option.splits)

lemma update_roi_sequence_active_existing:
  "active_sequences s (make_sequence_key h r) = Some sq \<Longrightarrow>
   active_sequences (update_roi_sequence h r f p u d w t s) =
     (active_sequences s)(make_sequence_key h r \<mapsto> add_frame f p u d sq)"
  by (simp add: update_roi_sequence_def Let_def)

lemma hand_roi_step_continue:
  "roi_requires_scooper roi \<Longrightarrow> is_in_roi hand roi \<Longrightarrow>
   make_sequence_key (make_hand_id i w) (roi_name roi) \<in> dom (active_sequences (fst st)) \<Longrightarrow>
   hand_roi_step al t f scs i hand w roi st =
     (update_roi_sequence (make_hand_id i w) (roi_name roi) f (center hand)
        (is_hand_using_scooper_simple al hand scs) (get_closest_scooper_distance hand scs) w t (fst st),
      snd st)"
  by (simp add: hand_roi_step_def Let_def)

section \<open>Re-entry inside the cooldown window\<close>

lemma exit_closure_forgets_violation:
  "should_create_sequence_violation
     (check_sequence_completion h r f2 t2
        (update_roi_sequence h r f1 p u d w t1 (mark_sequence_as_violation h r vid t0 s)))
     t3 h r False = True"
proof -
  let ?s1 = "update_roi_sequence h r f1 p u d w t1 (mark_sequence_as_violation h r vid t0 s)"
  have "make_sequence_key h r \<in> dom (active_sequences ?s1)"
    by (simp add: update_roi_sequence_dom)
  then show ?thesis
    by (simp add: should_create_cases check_sequence_completion_maps)
qed

lemma single_frame_entry:
  assumes "hands_of dets = [hand]" "persons_of dets = []" "scoopers_of dets = []"
    and "roi_requires_scooper roi" "is_in_roi hand roi"
    and "active_sequences s (make_sequence_key (make_hand_id 0 None) (roi_name roi)) = None"
    and "sequence_violations s (make_sequence_key (make_hand_id 0 None) (roi_name roi)) = None"
    and "violation_timestamps s (make_sequence_key (make_hand_id 0 None) (roi_name roi)) = None"
  shows "snd (detect_violations al t dets [roi] f s) = [entry_event t f 0 hand None roi s]"
  using assms
  by (simp add: detect_violations_single hand_roi_step_snd should_create_cases
      not_using_without_scoopers domIff)

lemma single_frame_inside_registries:
  assumes "hands_of dets = [hand]" "persons_of dets = []"
    and "roi_requires_scooper roi" "is_in_roi hand roi"
    and "sequence_violations s k = None" "violation_timestamps s k = None"
  shows "sequence_violations (fst (detect_violations al t dets [roi] f s)) k = None \<and>
         violation_timestamps (fst (detect_violations al t dets [roi] f s)) k = None"
  using assms
  by (simp add: detect_violations_single cleanup_old_violation_timestamps_fields
      cleanup_old_violation_timestamps_map cleanup_old_sequences_fields hand_roi_step_inside_maps)

lemma single_frame_exit:
  assumes "hands_of dets = [hand]" "persons_of dets = []" "\<not> is_in_roi hand roi"
    and "sequence_violations s (make_sequence_key (make_hand_id 0 None) (roi_name roi)) = None"
    and "violation_timestamps s (make_sequence_key (make_hand_id 0 None) (roi_name roi)) = None"
  shows "snd (detect_violations al t dets [roi] f s) = [] \<and>
         active_sequences (fst (detect_violations al t dets [roi] f s))
           (make_sequence_key (make_hand_id 0 None) (roi_name roi)) = None \<and>
         sequence_violations (fst (detect_violations al t dets [roi] f s))
           (make_sequence_key (make_hand_id 0 None) (roi_name roi)) = None \<and>
         violation_timestamps (fst (detect_violations al t dets [roi] f s))
           (make_sequence_key (make_hand_id 0 None) (roi_name roi)) = None"
  using assms
  by (simp add: detect_violations_single hand_roi_step_outside
      cleanup_old_violation_timestamps_fields cleanup_old_violation_timestamps_map
      cleanup_old_sequences_fields cleanup_old_sequences_active check_sequence_completion_maps)

text \<open>
  C1 fails on the code. Run from the initial detector over the three frames of the
  re-entry scenario, the analysis returns one event at time 0, none at time 1 and a second
  event for the same hand and ROI at time 2, two seconds after the first. The exit closure
  removes the key from both registries, so the arbiter asks for a violation again on the
  next entry without a scooper; that holds even from a state in which the first violation
  had been marked.
\<close>

theorem reentry_within_cooldown_two_violations:
  "map (map ev_timestamp) (snd (run_frames True reentry_frames initial_detector)) = [[0], [], [2]] \<and>
   map (map ev_roi_name) (snd (run_frames True reentry_frames initial_detector)) =
     [[''A''], [], [''A'']] \<and>
   map (map ev_description) (snd (run_frames True reentry_frames initial_detector)) =
     [[''Hand 1 (Unassigned) in A without scooper (complete sequence)''], [],
      [''Hand 1 (Unassigned) in A without scooper (complete sequence)'']] \<and>
   should_create_sequence_violation
     (check_sequence_completion h r f2 t2
        (update_roi_sequence h r f1 p u d w t1 (mark_sequence_as_violation h r vid t0 s)))
     t3 h r False = True"
proof -
  let ?K = "make_sequence_key (make_hand_id 0 None) (roi_name roi_A)"
  let ?r1 = "detect_violations True 0 [det_at ''hand'' 520 420] [roi_A] ''frame_1'' initial_detector"
  let ?r2 = "detect_violations True 1 [det_at ''hand'' 100 100] [roi_A] ''frame_2'' (fst ?r1)"
  let ?r3 = "detect_violations True 2 [det_at ''hand'' 520 420] [roi_A] ''frame_3'' (fst ?r2)"
  have run: "snd (run_frames True reentry_frames initial_detector) = [snd ?r1, snd ?r2, snd ?r3]"
    by (simp add: reentry_frames_def Let_def)
  have s0: "active_sequences initial_detector ?K = None"
    "sequence_violations initial_detector ?K = None"
    "violation_timestamps initial_detector ?K = None"
    by (simp_all add: initial_detector_def)
  have e1: "snd ?r1 = [entry_event 0 ''frame_1'' 0 (det_at ''hand'' 520 420) None roi_A initial_detector]"
    by (rule single_frame_entry) (simp_all add: classes_of_hand roi_A_inside s0)
  have s1: "sequence_violations (fst ?r1) ?K = None \<and> violation_timestamps (fst ?r1) ?K = None"
    by (rule single_frame_inside_registries [where hand = "det_at ''hand'' 520 420"]) (simp_all add: classes_of_hand roi_A_inside s0)
  have s2: "snd ?r2 = [] \<and> active_sequences (fst ?r2) ?K = None \<and>
      sequence_violations (fst ?r2) ?K = None \<and> violation_timestamps (fst ?r2) ?K = None"
    by (rule single_frame_exit [where hand = "det_at ''hand'' 100 100"]) (simp_all add: classes_of_hand roi_A_inside s1)
  have e3: "snd ?r3 = [entry_event 2 ''frame_3'' 0 (det_at ''hand'' 520 420) None roi_A (fst ?r2)]"
    by (rule single_frame_entry) (simp_all add: classes_of_hand roi_A_inside s2)
  have descr: "ev_description (entry_event t f 0 hand None roi_A st) =
      ''Hand 1 (Unassigned) in A without scooper (complete sequence)''" for t f hand st
    using str_nat_0_1(2)
    by (simp add: entry_event_def create_violation_def Let_def worker_info_def truthy_worker_def
        roi_A_def rect_roi_def)
  have rn: "roi_name roi_A = ''A''" by (simp add: roi_A_def rect_roi_def)
  show ?thesis
    unfolding run e1 e3 using s2
    by (simp add: entry_event_fields descr rn exit_closure_forgets_violation)
qed

section \<open>Hands and their nearest person\<close>

lemma closest_worker_loop_result:
  assumes "closest_worker_loop hc ps k (md, cw) = (md', cw')"
  shows "(md' = md \<and> cw' = cw \<and>
           (\<forall>p \<in> set ps. \<not> (lt_inf (calculate_distance hc (center p)) md \<and>
                                calculate_distance hc (center p) < 150))) \<or>
         (\<exists>j < length ps.
            cw' = Some (k + j + 1) \<and> md' = Some (calculate_distance hc (center (ps ! j))) \<and>
            calculate_distance hc (center (ps ! j)) < 150 \<and>
            lt_inf (calculate_distance hc (center (ps ! j))) md \<and>
            (\<forall>l < j. calculate_distance hc (center (ps ! j)) < calculate_distance hc (center (ps ! l))) \<and>
            (\<forall>l < length ps. calculate_distance hc (center (ps ! j)) \<le>
                               calculate_distance hc (center (ps ! l))))"
  using assms
proof (induction ps arbitrary: k md cw)
  case Nil
  then show ?case by simp
next
  case (Cons p ps)
  let ?d = "\<lambda>q. calculate_distance hc (center q)"
  show ?case
  proof (cases "lt_inf (?d p) md \<and> ?d p < 150")
    case True
    then have rec: "closest_worker_loop hc ps (k + 1) (Some (?d p), Some (k + 1)) = (md', cw')"
      using Cons.prems by (simp add: Let_def)
    from Cons.IH [OF rec]
    consider
      (same) "md' = Some (?d p)" "cw' = Some (k + 1)"
        "\<forall>q \<in> set ps. \<not> (lt_inf (?d q) (Some (?d p)) \<and> ?d q < 150)"
    | (later) j where "j < length ps" "cw' = Some (k + 1 + j + 1)" "md' = Some (?d (ps ! j))"
        "?d (ps ! j) < 150" "lt_inf (?d (ps ! j)) (Some (?d p))"
        "\<forall>l < j. ?d (ps ! j) < ?d (ps ! l)" "\<forall>l < length ps. ?d (ps ! j) \<le> ?d (ps ! l)"
      by blast
    then show ?thesis
    proof cases
      case same
      have all: "\<forall>l < length (p # ps). ?d p \<le> ?d ((p # ps) ! l)"
      proof (intro allI impI)
        fix l assume l: "l < length (p # ps)"
        show "?d p \<le> ?d ((p # ps) ! l)"
        proof (cases l)
          case 0
          then show ?thesis by simp
        next
          case (Suc m)
          then have "ps ! m \<in> set ps" using l by simp
          then have "\<not> (?d (ps ! m) < ?d p \<and> ?d (ps ! m) < 150)"
            using same(3) by (simp add: lt_inf_def)
          then show ?thesis using True Suc by auto
        qed
      qed
      have "0 < length (p # ps) \<and> cw' = Some (k + 0 + 1) \<and> md' = Some (?d ((p # ps) ! 0)) \<and>
          ?d ((p # ps) ! 0) < 150 \<and> lt_inf (?d ((p # ps) ! 0)) md \<and>
          (\<forall>l < 0. ?d ((p # ps) ! 0) < ?d ((p # ps) ! l)) \<and>
          (\<forall>l < length (p # ps). ?d ((p # ps) ! 0) \<le> ?d ((p # ps) ! l))"
        using same True all by simp
      then show ?thesis by blast
    next
      case later
      have lt: "?d (ps ! j) < ?d p" using later(5) by (simp add: lt_inf_def)
      have a: "lt_inf (?d (ps ! j)) md"
        using True lt by (cases md) (auto simp: lt_inf_def)
      have b: "\<forall>l < Suc j. ?d ((p # ps) ! Suc j) < ?d ((p # ps) ! l)"
      proof (intro allI impI)
        fix l assume "l < Suc j"
        then show "?d ((p # ps) ! Suc j) < ?d ((p # ps) ! l)"
          using lt later(6) by (cases l) auto
      qed
      have c: "\<forall>l < length (p # ps). ?d ((p # ps) ! Suc j) \<le> ?d ((p # ps) ! l)"
      proof (intro allI impI)
        fix l assume "l < length (p # ps)"
        then show "?d ((p # ps) ! Suc j) \<le> ?d ((p # ps) ! l)"
          using lt later(7) by (cases l) auto
      qed
      have "Suc j < length (p # ps) \<and> cw' = Some (k + Suc j + 1) \<and>
          md' = Some (?d ((p # ps) ! Suc j)) \<and> ?d ((p # ps) ! Suc j) < 150 \<and>
          lt_inf (?d ((p # ps) ! Suc j)) md \<and>
          (\<forall>l < Suc j. ?d ((p # ps) ! Suc j) < ?d ((p # ps) ! l)) \<and>
          (\<forall>l < length (p # ps). ?d ((p # ps) ! Suc j) \<le> ?d ((p # ps) ! l))"
        using later(1-4) a b c by simp
      then show ?thesis by blast
    qed
  next
    case False
    then have rec: "closest_worker_loop hc ps (k + 1) (md, cw) = (md', cw')"
      using Cons.prems by (auto simp: Let_def)
    from Cons.IH [OF rec]
    consider
      (same) "md' = md" "cw' = cw"
        "\<forall>q \<in> set ps. \<not> (lt_inf (?d q) md \<and> ?d q < 150)"
    | (later) j where "j < length ps" "cw' = Some (k + 1 + j + 1)" "md' = Some (?d (ps ! j))"
        "?d (ps ! j) < 150" "lt_inf (?d (ps ! j)) md"
        "\<forall>l < j. ?d (ps ! j) < ?d (ps ! l)" "\<forall>l < length ps. ?d (ps ! j) \<le> ?d (ps ! l)"
      by blast
    then show ?thesis
    proof cases
      case same
      then show ?thesis using False by auto
    next
      case later
      have lt: "?d (ps ! j) < ?d p"
        using False later(4,5) by (cases md) (auto simp: lt_inf_def)
      have b: "\<forall>l < Suc j. ?d ((p # ps) ! Suc j) < ?d ((p # ps) ! l)"
      proof (intro allI impI)
        fix l assume "l < Suc j"
        then show "?d ((p # ps) ! Suc j) < ?d ((p # ps) ! l)"
          using lt later(6) by (cases l) auto
      qed
      have c: "\<forall>l < length (p # ps). ?d ((p # ps) ! Suc j) \<le> ?d ((p # ps) ! l)"
      proof (intro allI impI)
        fix l assume "l < length (p # ps)"
        then show "?d ((p # ps) ! Suc j) \<le> ?d ((p # ps) ! l)"
          using lt later(7) by (cases l) auto
      qed
      have "Suc j < length (p # ps) \<and> cw' = Some (k + Suc j + 1) \<and>
          md' = Some (?d ((p # ps) ! Suc j)) \<and> ?d ((p # ps) ! Suc j) < 150 \<and>
          lt_inf (?d ((p # ps) ! Suc j)) md \<and>
          (\<forall>l < Suc j. ?d ((p # ps) ! Suc j) < ?d ((p # ps) ! l)) \<and>
          (\<forall>l < length (p # ps). ?d ((p # ps) ! Suc j) \<le> ?d ((p # ps) ! l))"
        using later(1-5) b c by simp
      then show ?thesis by blast
    qed
  qed
qed

lemma associate_loop_lookup:
  "associate_loop hands persons k m i =
     (if k \<le> i \<and> i < k + length hands
      then (case snd (closest_worker_loop (center (hands ! (i - k))) persons 0 (None, None)) of
              None \<Rightarrow> m i
            | Some w \<Rightarrow> Some w)
      else m i)"
proof (induction hands arbitrary: k m)
  case Nil
  then show ?case by auto
next
  case (Cons hand hands)
  let ?cw = "snd (closest_worker_loop (center hand) persons 0 (None, None))"
  have nth: "k < i \<Longrightarrow> (hand # hands) ! (i - k) = hands ! (i - (k + 1))"
  proof -
    assume "k < i"
    then have "i - k = Suc (i - (k + 1))" by simp
    then show ?thesis by simp
  qed
  show ?case
  proof (cases ?cw)
    case None
    then have "associate_loop (hand # hands) persons k m i = associate_loop hands persons (k + 1) m i"
      by simp
    also have "\<dots> = (if k + 1 \<le> i \<and> i < k + 1 + length hands
      then (case snd (closest_worker_loop (center (hands ! (i - (k + 1)))) persons 0 (None, None)) of
              None \<Rightarrow> m i
            | Some w \<Rightarrow> Some w)
      else m i)"
      by (rule Cons.IH)
    finally show ?thesis
      using None nth by (cases "i = k") auto
  next
    case (Some w)
    then have "associate_loop (hand # hands) persons k m i =
        associate_loop hands persons (k + 1) (m(k \<mapsto> w)) i"
      by simp
    also have "\<dots> = (if k + 1 \<le> i \<and> i < k + 1 + length hands
      then (case snd (closest_worker_loop (center (hands ! (i - (k + 1)))) persons 0 (None, None)) of
              None \<Rightarrow> (m(k \<mapsto> w)) i
            | Some w \<Rightarrow> Some w)
      else (m(k \<mapsto> w)) i)"
      by (rule Cons.IH)
    finally show ?thesis
      using Some nth by (cases "i = k") (auto split: option.splits)
  qed
qed

lemma associate_hands_with_workers_lookup:
  "associate_hands_with_workers hands persons i =
     (if i < length hands \<and> persons \<noteq> []
      then snd (closest_worker_loop (center (hands ! i)) persons 0 (None, None))
      else None)"
  by (auto simp: associate_hands_with_workers_def associate_loop_lookup split: option.splits)

lemma distance_same_x:
  "calculate_distance (center (det_at c1 a y1)) (center (det_at c2 a y2)) = \<bar>y1 - y2\<bar>"
  by (simp add: distance_det_at)

lemma distance_same_y:
  "calculate_distance (center (det_at c1 x1 b)) (center (det_at c2 x2 b)) = \<bar>x1 - x2\<bar>"
  by (simp add: distance_det_at)

text \<open>
  C5, as stated, fails at the bound: a person exactly 150 px from the hand is within the
  claim's \<open>\<le> 150\<close>, and the code leaves the hand unassigned.
\<close>

theorem person_at_150_not_associated:
  "hand_person_distance [det_at ''hand'' 0 0] [det_at ''person'' 150 0] 0 0 = 150 \<and>
   associate_hands_with_workers [det_at ''hand'' 0 0] [det_at ''person'' 150 0] 0 = None"
  by (simp add: hand_person_distance_def associate_hands_with_workers_lookup distance_same_y
      lt_inf_def)

text \<open>
  C5, amended. For hand number \<open>i\<close> of a frame: when the association gives worker \<open>w\<close>,
  then \<open>w\<close> is the 1-based index of a person whose centre is less than 150 px from the
  hand's centre, no person is nearer, and every person listed before is strictly farther
  (the first of the nearest persons wins); when it gives none, every person is 150 px or
  more away (in particular when there are no persons).
\<close>

theorem hand_worker_association:
  "i < length hands \<Longrightarrow>
   (case associate_hands_with_workers hands persons i of
      None \<Rightarrow> \<forall>j < length persons. 150 \<le> hand_person_distance hands persons i j
    | Some w \<Rightarrow>
        1 \<le> w \<and> w \<le> length persons \<and>
        hand_person_distance hands persons i (w - 1) < 150 \<and>
        (\<forall>j < length persons.
           hand_person_distance hands persons i (w - 1) \<le> hand_person_distance hands persons i j) \<and>
        (\<forall>j < w - 1.
           hand_person_distance hands persons i (w - 1) < hand_person_distance hands persons i j))"
proof -
  assume i: "i < length hands"
  let ?hc = "center (hands ! i)"
  obtain md' cw' where r: "closest_worker_loop ?hc persons 0 (None, None) = (md', cw')"
    by (cases "closest_worker_loop ?hc persons 0 (None, None)") auto
  have look: "associate_hands_with_workers hands persons i = (if persons \<noteq> [] then cw' else None)"
    using i r by (simp add: associate_hands_with_workers_lookup)
  from closest_worker_loop_result [OF r]
  consider
    (none) "cw' = None"
      "\<forall>p \<in> set persons. \<not> calculate_distance ?hc (center p) < 150"
  | (some) j where "j < length persons" "cw' = Some (j + 1)"
      "calculate_distance ?hc (center (persons ! j)) < 150"
      "\<forall>l < j. calculate_distance ?hc (center (persons ! j)) < calculate_distance ?hc (center (persons ! l))"
      "\<forall>l < length persons. calculate_distance ?hc (center (persons ! j)) \<le>
                           calculate_distance ?hc (center (persons ! l))"
    by (auto simp: lt_inf_def)
  then show ?thesis
  proof cases
    case none
    have "\<forall>j < length persons. 150 \<le> hand_person_distance hands persons i j"
      using none(2) by (auto simp: hand_person_distance_def not_less)
    then show ?thesis using look none(1) by simp
  next
    case some
    then have ne: "persons \<noteq> []" by auto
    show ?thesis
      using some ne by (simp add: look hand_person_distance_def)
  qed
qed

theorem hand_worker_association_witness:
  "(0::nat) < length [det_at ''hand'' 520 420] \<and>
   associate_hands_with_workers [det_at ''hand'' 520 420]
     [det_at ''person'' 520 720, det_at ''person'' 520 500, det_at ''person'' 520 340] 0 = Some 2 \<and>
   hand_person_distance [det_at ''hand'' 520 420]
     [det_at ''person'' 520 720, det_at ''person'' 520 500, det_at ''person'' 520 340] 0 (2 - 1) < 150 \<and>
   hand_person_distance [det_at ''hand'' 520 420]
     [det_at ''person'' 520 720, det_at ''person'' 520 500, det_at ''person'' 520 340] 0 (2 - 1) <
   hand_person_distance [det_at ''hand'' 520 420]
     [det_at ''person'' 520 720, det_at ''person'' 520 500, det_at ''person'' 520 340] 0 0"
proof -
  have a: "associate_hands_with_workers [det_at ''hand'' 520 420]
     [det_at ''person'' 520 720, det_at ''person'' 520 500, det_at ''person'' 520 340] 0 = Some 2"
    by (simp add: associate_hands_with_workers_lookup distance_same_x lt_inf_def)
  show ?thesis
    using hand_worker_association [of 0 "[det_at ''hand'' 520 420]"
        "[det_at ''person'' 520 720, det_at ''person'' 520 500, det_at ''person'' 520 340]"]
    by (simp add: a)
qed

section \<open>The ray-casting loop\<close>

lemma edge_point_below_max:
  fixes p1x p1y p2x p2y py :: real
  assumes "min p1y p2y < py" "py \<le> max p1y p2y"
  shows "p1x + (py - p1y) * (p2x - p1x) / (p2y - p1y) \<le> max p1x p2x"
proof -
  have ne: "p2y \<noteq> p1y" using assms by auto
  define u where "u = (py - p1y) / (p2y - p1y)"
  have u0: "0 \<le> u"
  proof (cases "p1y < p2y")
    case True
    then show ?thesis using assms by (simp add: u_def)
  next
    case False
    then have "p2y < p1y" using ne by simp
    then show ?thesis using assms by (simp add: u_def divide_nonpos_neg)
  qed
  have u1: "u \<le> 1"
  proof (cases "p1y < p2y")
    case True
    then show ?thesis using assms by (simp add: u_def)
  next
    case False
    then have "p2y < p1y" using ne by simp
    then show ?thesis using assms by (simp add: u_def divide_le_eq)
  qed
  have eq: "p1x + (py - p1y) * (p2x - p1x) / (p2y - p1y) = p1x + u * (p2x - p1x)"
    by (simp add: u_def)
  have "p1x + u * (p2x - p1x) \<le> max p1x p2x"
  proof (cases "p1x \<le> p2x")
    case True
    then have "u * (p2x - p1x) \<le> 1 * (p2x - p1x)"
      using u1 by (intro mult_right_mono) simp_all
    then show ?thesis using True by simp
  next
    case False
    then have "u * (p2x - p1x) \<le> 0"
      using u0 by (simp add: mult_nonneg_nonpos)
    then show ?thesis using False by simp
  qed
  then show ?thesis using eq by simp
qed

lemma pip_edge_toggles:
  "\<exists>xi'. pip_edge px py p1 p2 (xi, ins) = Some (xi', ins \<noteq> ray_crosses px py p1 p2)"
proof (cases "min (snd p1) (snd p2) < py \<and> py \<le> max (snd p1) (snd p2)")
  case False
  then show ?thesis
    by (auto simp: pip_edge_def ray_crosses_def Let_def)
next
  case True
  then have ne: "snd p1 \<noteq> snd p2" by auto
  let ?xi = "(py - snd p1) * (fst p2 - fst p1) / (snd p2 - snd p1) + fst p1"
  have le: "?xi \<le> max (fst p1) (fst p2)"
    using edge_point_below_max [of "snd p1" "snd p2" py "fst p1" "fst p2"] True
    by (simp add: add.commute)
  have rc: "ray_crosses px py p1 p2 = (px \<le> ?xi)"
    using True by (simp add: ray_crosses_def add.commute)
  show ?thesis
  proof (cases "px \<le> max (fst p1) (fst p2)")
    case False
    then have "\<not> px \<le> ?xi" using le by linarith
    then show ?thesis using True False rc
      by (simp add: pip_edge_def Let_def)
  next
    case inmax: True
    show ?thesis
    proof (cases "fst p1 = fst p2")
      case True
      then have "?xi = fst p1" by simp
      then have "ray_crosses px py p1 p2" using rc inmax True by simp
      then show ?thesis using \<open>min (snd p1) (snd p2) < py \<and> py \<le> max (snd p1) (snd p2)\<close> inmax True ne
        by (simp add: pip_edge_def Let_def)
    next
      case False
      then show ?thesis using True inmax ne rc
        by (simp add: pip_edge_def Let_def)
    qed
  qed
qed

lemma pip_loop_parity:
  "pip_loop px py ps p1 st =
     Some (snd st \<noteq> odd (length (filter (\<lambda>e. ray_crosses px py (fst e) (snd e)) (zip (p1 # ps) ps))))"
proof (induction ps arbitrary: p1 st)
  case Nil
  then show ?case by simp
next
  case (Cons p2 ps)
  obtain xi' where e: "pip_edge px py p1 p2 st = Some (xi', snd st \<noteq> ray_crosses px py p1 p2)"
    using pip_edge_toggles [of px py p1 p2 "fst st" "snd st"] by auto
  show ?case
    using Cons.IH [of p2 "(xi', snd st \<noteq> ray_crosses px py p1 p2)"]
    by (auto simp: e)
qed

lemma visited_vertices:
  assumes "pts \<noteq> []"
  shows "map (\<lambda>i. pts ! (i mod length pts)) [1..<length pts + 1] = rotate1 pts"
proof (rule nth_equalityI)
  show "length (map (\<lambda>i. pts ! (i mod length pts)) [1..<length pts + 1]) = length (rotate1 pts)"
    by (simp only: length_map length_upt length_rotate1 add_diff_cancel_right')
next
  fix i
  assume "i < length (map (\<lambda>i. pts ! (i mod length pts)) [1..<length pts + 1])"
  then have i: "i < length pts"
    by (simp only: length_map length_upt add_diff_cancel_right')
  have l: "i < length [1..<length pts + 1]"
    using i by (simp only: length_upt add_diff_cancel_right')
  have "1 + i < length pts + 1" using i by simp
  then have n: "[1..<length pts + 1] ! i = 1 + i"
    by (rule nth_upt)
  have "map (\<lambda>i. pts ! (i mod length pts)) [1..<length pts + 1] ! i =
      pts ! ((1 + i) mod length pts)"
    using l n by (simp only: nth_map)
  then show "map (\<lambda>i. pts ! (i mod length pts)) [1..<length pts + 1] ! i = rotate1 pts ! i"
    using i by (simp add: nth_rotate1 del: upt_Suc)
qed

lemma zip_rotate1:
  "zip (p0 # rotate1 (p0 # rest)) (rotate1 (p0 # rest)) = zip (p0 # rest) (rotate1 (p0 # rest))"
proof -
  have "zip ((p0 # rest) @ [p0]) (rest @ [p0]) = zip (p0 # rest) (rest @ [p0])"
    by (rule zip_append1 [where ys = "[p0]", simplified, THEN trans]) simp
  then show ?thesis by simp
qed

lemma point_in_polygon_even_odd:
  "point_in_polygon px py pts = even_odd_inside px py pts"
proof (cases pts)
  case Nil
  then show ?thesis
    by (simp add: point_in_polygon_def even_odd_inside_def polygon_edges_def)
next
  case (Cons p0 rest)
  have v: "map (\<lambda>i. (p0 # rest) ! (i mod length (p0 # rest))) [1..<length (p0 # rest) + 1] =
      rotate1 (p0 # rest)"
    by (rule visited_vertices) simp
  show ?thesis
    unfolding Cons point_in_polygon_def even_odd_inside_def polygon_edges_def list.case Let_def v
    by (simp only: pip_loop_parity zip_rotate1 option.case snd_conv) simp
qed




lemma even_odd_rect_corners:
  assumes "0 \<le> w" "0 \<le> h"
  shows "even_odd_inside px py (rect_corners rx ry w h) =
           (rx < px \<and> px \<le> rx + w \<and> ry < py \<and> py \<le> ry + h)"
proof -
  have e1: "\<not> ray_crosses px py (rx, ry) (rx + w, ry)"
    by (simp add: ray_crosses_def)
  have e3: "\<not> ray_crosses px py (rx + w, ry + h) (rx, ry + h)"
    by (simp add: ray_crosses_def)
  have e2: "ray_crosses px py (rx + w, ry) (rx + w, ry + h) = (ry < py \<and> py \<le> ry + h \<and> px \<le> rx + w)"
    using assms by (auto simp: ray_crosses_def min_def max_def)
  have e4: "ray_crosses px py (rx, ry + h) (rx, ry) = (ry < py \<and> py \<le> ry + h \<and> px \<le> rx)"
    using assms by (auto simp: ray_crosses_def min_def max_def)
  show ?thesis
    using assms by (auto simp: even_odd_inside_def polygon_edges_def rect_corners_def e1 e2 e3 e4)
qed

lemma is_in_roi_rectangle:
  "bbox det \<noteq> Map.empty \<Longrightarrow> roi_shape roi = ''rectangle'' \<Longrightarrow>
   roi_x roi = Some rx \<Longrightarrow> roi_y roi = Some ry \<Longrightarrow>
   is_in_roi det roi =
     (rx \<le> dict_get0 (center det) ''x'' \<and> dict_get0 (center det) ''x'' \<le> rx + or0 (roi_width roi) \<and>
      ry \<le> dict_get0 (center det) ''y'' \<and> dict_get0 (center det) ''y'' \<le> ry + or0 (roi_height roi))"
  by (simp add: is_in_roi_def Let_def)

lemma is_in_roi_polygon:
  "bbox det \<noteq> Map.empty \<Longrightarrow> roi_shape roi = ''polygon'' \<Longrightarrow> roi_points roi = Some pts \<Longrightarrow>
   is_in_roi det roi =
     even_odd_inside (dict_get0 (center det) ''x'') (dict_get0 (center det) ''y'') pts"
  by (cases pts)
    (auto simp: is_in_roi_def Let_def point_in_polygon_even_odd even_odd_inside_def
      polygon_edges_def split: option.splits)


section \<open>Hand in ROI\<close>

lemma bbox_det_at: "bbox (det_at c a b) \<noteq> Map.empty"
  by (simp add: det_at_def)






section \<open>Rectangles as polygons\<close>

text \<open>
  C7, as stated, fails on the rectangle's left and top edges: the point \<open>(500, 420)\<close> is in
  the rectangle ROI \<^verbatim>\<open>[500, 400, 200, 200]\<close> and not in the polygon ROI over its four corners.
\<close>

theorem left_edge_rectangle_not_polygon:
  "is_in_roi (det_at ''hand'' 500 420) (rect_roi ''A'' 500 400 200 200) \<and>
   \<not> is_in_roi (det_at ''hand'' 500 420) (rect_as_polygon_roi ''A'' 500 400 200 200) \<and>
   \<not> point_in_polygon 500 420 (rect_corners 500 400 200 200)"
proof -
  have "\<not> even_odd_inside 500 420 (rect_corners 500 400 200 200)"
    by (simp add: even_odd_rect_corners)
  then show ?thesis
    by (simp add: is_in_roi_rectangle [of _ _ 500 400] is_in_roi_polygon [of _ _ "rect_corners 500 400 200 200"]
        bbox_det_at center_det_at rect_roi_def rect_as_polygon_roi_def or0_def
        point_in_polygon_even_odd)
qed

text \<open>
  C7, amended. For a rectangle of non-negative width and height, written as a polygon over
  its corners \<open>(x, y)\<close>, \<open>(x + w, y)\<close>, \<open>(x + w, y + h)\<close>, \<open>(x, y + h)\<close>: the rectangle test
  accepts the centres of the closed rectangle, the polygon test accepts the centres with
  \<open>x < px \<le> x + w\<close> and \<open>y < py \<le> y + h\<close>, and the two tests agree at every centre with
  \<open>px \<noteq> x\<close> and \<open>py \<noteq> y\<close>, that is, off the lines of the left and the top edge.
\<close>

theorem rectangle_and_polygon_agree_off_edges:
  "bbox det \<noteq> Map.empty \<and> 0 \<le> w \<and> 0 \<le> h \<longrightarrow>
     is_in_roi det (rect_roi nm rx ry w h) =
       (rx \<le> dict_get0 (center det) ''x'' \<and> dict_get0 (center det) ''x'' \<le> rx + w \<and>
        ry \<le> dict_get0 (center det) ''y'' \<and> dict_get0 (center det) ''y'' \<le> ry + h) \<and>
     is_in_roi det (rect_as_polygon_roi nm rx ry w h) =
       (rx < dict_get0 (center det) ''x'' \<and> dict_get0 (center det) ''x'' \<le> rx + w \<and>
        ry < dict_get0 (center det) ''y'' \<and> dict_get0 (center det) ''y'' \<le> ry + h) \<and>
     point_in_polygon (dict_get0 (center det) ''x'') (dict_get0 (center det) ''y'')
         (rect_corners rx ry w h) =
       (rx < dict_get0 (center det) ''x'' \<and> dict_get0 (center det) ''x'' \<le> rx + w \<and>
        ry < dict_get0 (center det) ''y'' \<and> dict_get0 (center det) ''y'' \<le> ry + h) \<and>
     (dict_get0 (center det) ''x'' \<noteq> rx \<and> dict_get0 (center det) ''y'' \<noteq> ry \<longrightarrow>
        is_in_roi det (rect_as_polygon_roi nm rx ry w h) = is_in_roi det (rect_roi nm rx ry w h))"
proof (intro impI)
  assume a: "bbox det \<noteq> Map.empty \<and> 0 \<le> w \<and> 0 \<le> h"
  let ?cx = "dict_get0 (center det) ''x''" and ?cy = "dict_get0 (center det) ''y''"
  have r: "is_in_roi det (rect_roi nm rx ry w h) =
      (rx \<le> ?cx \<and> ?cx \<le> rx + w \<and> ry \<le> ?cy \<and> ?cy \<le> ry + h)"
    using a is_in_roi_rectangle [of det "rect_roi nm rx ry w h" rx ry]
    by (simp add: rect_roi_def or0_def)
  have e: "even_odd_inside ?cx ?cy (rect_corners rx ry w h) =
      (rx < ?cx \<and> ?cx \<le> rx + w \<and> ry < ?cy \<and> ?cy \<le> ry + h)"
    using a by (simp add: even_odd_rect_corners)
  have p: "is_in_roi det (rect_as_polygon_roi nm rx ry w h) =
      (rx < ?cx \<and> ?cx \<le> rx + w \<and> ry < ?cy \<and> ?cy \<le> ry + h)"
    using a is_in_roi_polygon [of det "rect_as_polygon_roi nm rx ry w h" "rect_corners rx ry w h"] e
    by (simp add: rect_as_polygon_roi_def)
  have q: "point_in_polygon ?cx ?cy (rect_corners rx ry w h) =
      (rx < ?cx \<and> ?cx \<le> rx + w \<and> ry < ?cy \<and> ?cy \<le> ry + h)"
    using e by (simp add: point_in_polygon_even_odd)
  have ag: "?cx \<noteq> rx \<and> ?cy \<noteq> ry \<longrightarrow>
      is_in_roi det (rect_as_polygon_roi nm rx ry w h) = is_in_roi det (rect_roi nm rx ry w h)"
    unfolding r p by auto
  from r p q ag show "is_in_roi det (rect_roi nm rx ry w h) =
       (rx \<le> ?cx \<and> ?cx \<le> rx + w \<and> ry \<le> ?cy \<and> ?cy \<le> ry + h) \<and>
     is_in_roi det (rect_as_polygon_roi nm rx ry w h) =
       (rx < ?cx \<and> ?cx \<le> rx + w \<and> ry < ?cy \<and> ?cy \<le> ry + h) \<and>
     point_in_polygon ?cx ?cy (rect_corners rx ry w h) =
       (rx < ?cx \<and> ?cx \<le> rx + w \<and> ry < ?cy \<and> ?cy \<le> ry + h) \<and>
     (?cx \<noteq> rx \<and> ?cy \<noteq> ry \<longrightarrow>
        is_in_roi det (rect_as_polygon_roi nm rx ry w h) = is_in_roi det (rect_roi nm rx ry w h))"
    by blast
qed

theorem rectangle_and_polygon_agree_off_edges_witness:
  "bbox (det_at ''hand'' 520 420) \<noteq> Map.empty \<and> (0::real) \<le> 200 \<and>
   dict_get0 (center (det_at ''hand'' 520 420)) ''x'' \<noteq> 500 \<and>
   dict_get0 (center (det_at ''hand'' 520 420)) ''y'' \<noteq> 400 \<and>
   is_in_roi (det_at ''hand'' 520 420) (rect_roi ''A'' 500 400 200 200) \<and>
   is_in_roi (det_at ''hand'' 520 420) (rect_as_polygon_roi ''A'' 500 400 200 200) \<and>
   point_in_polygon 520 420 (rect_corners 500 400 200 200)"
  using rectangle_and_polygon_agree_off_edges [of "det_at ''hand'' 520 420" 200 200 "''A''" 500 400]
  by (simp add: bbox_det_at center_det_at)









section \<open>One violation per sequence\<close>

lemma marked_sequence_is_refused:
  "should_create_sequence_violation (mark_sequence_as_violation h r vid t0 s) t h r u = False"
  by (simp add: should_create_cases mark_sequence_as_violation_def Let_def)



section \<open>The hand that triggers an event\<close>

lemma entry_event_is_for: "entry_event_for i hand w roi (entry_event t f i hand w roi s)"
  by (simp add: entry_event_for_def entry_event_def create_violation_def Let_def)

lemma hand_roi_step_triggered:
  "\<exists>new. snd (hand_roi_step al t f scs i hand w roi st) = snd st @ new \<and>
         (\<forall>ev \<in> set new.
            roi_requires_scooper roi \<and> is_in_roi hand roi \<and>
            \<not> is_hand_using_scooper_simple al hand scs \<and> entry_event_for i hand w roi ev)"
proof (cases "snd (hand_roi_step al t f scs i hand w roi st) = snd st")
  case True
  then show ?thesis by simp
next
  case False
  then have c: "roi_requires_scooper roi" "is_in_roi hand roi"
    "should_create_sequence_violation (fst st) t (make_hand_id i w) (roi_name roi)
       (is_hand_using_scooper_simple al hand scs)"
    and e: "snd (hand_roi_step al t f scs i hand w roi st) =
      snd st @ [entry_event t f i hand w roi (fst st)]"
    by (simp_all add: hand_roi_step_snd split: if_splits)
  have "\<not> is_hand_using_scooper_simple al hand scs"
    using c(3) by (simp add: should_create_cases)
  then show ?thesis using c(1,2) e entry_event_is_for by auto
qed

lemma rois_loop_triggered:
  "\<exists>new. snd (rois_loop al t f scs i hand w rois st) = snd st @ new \<and>
         (\<forall>ev \<in> set new. \<exists>roi \<in> set rois.
            roi_requires_scooper roi \<and> is_in_roi hand roi \<and>
            \<not> is_hand_using_scooper_simple al hand scs \<and> entry_event_for i hand w roi ev)"
proof (induction rois arbitrary: st)
  case Nil
  then show ?case by simp
next
  case (Cons roi rois)
  let ?P = "\<lambda>r ev. roi_requires_scooper r \<and> is_in_roi hand r \<and>
            \<not> is_hand_using_scooper_simple al hand scs \<and> entry_event_for i hand w r ev"
  obtain n1 where n1: "snd (hand_roi_step al t f scs i hand w roi st) = snd st @ n1"
      "\<forall>ev \<in> set n1. ?P roi ev"
    using hand_roi_step_triggered by blast
  obtain n2 where n2:
      "snd (rois_loop al t f scs i hand w rois (hand_roi_step al t f scs i hand w roi st)) =
         snd (hand_roi_step al t f scs i hand w roi st) @ n2"
      "\<forall>ev \<in> set n2. \<exists>r \<in> set rois. ?P r ev"
    using Cons.IH by blast
  have "snd (rois_loop al t f scs i hand w (roi # rois) st) = snd st @ (n1 @ n2)"
    using n1(1) n2(1) by simp
  moreover have "\<forall>ev \<in> set (n1 @ n2). \<exists>r \<in> set (roi # rois). ?P r ev"
    using n1(2) n2(2) by auto
  ultimately show ?case by blast
qed

lemma hands_loop_triggered:
  "\<exists>new. snd (hands_loop al t f scs assoc rois i0 hs st) = snd st @ new \<and>
         (\<forall>ev \<in> set new. \<exists>j < length hs. \<exists>roi \<in> set rois.
            roi_requires_scooper roi \<and> is_in_roi (hs ! j) roi \<and>
            \<not> is_hand_using_scooper_simple al (hs ! j) scs \<and>
            entry_event_for (i0 + j) (hs ! j) (assoc (i0 + j)) roi ev)"
proof (induction hs arbitrary: st i0)
  case Nil
  then show ?case by simp
next
  case (Cons hand hs)
  let ?P = "\<lambda>k h r ev. roi_requires_scooper r \<and> is_in_roi h r \<and>
            \<not> is_hand_using_scooper_simple al h scs \<and> entry_event_for k h (assoc k) r ev"
  let ?st1 = "rois_loop al t f scs i0 hand (assoc i0) rois st"
  obtain n1 where n1: "snd ?st1 = snd st @ n1"
      "\<forall>ev \<in> set n1. \<exists>r \<in> set rois. ?P i0 hand r ev"
    using rois_loop_triggered by blast
  obtain n2 where n2: "snd (hands_loop al t f scs assoc rois (i0 + 1) hs ?st1) = snd ?st1 @ n2"
      "\<forall>ev \<in> set n2. \<exists>j < length hs. \<exists>r \<in> set rois. ?P (i0 + 1 + j) (hs ! j) r ev"
    using Cons.IH by blast
  have a: "snd (hands_loop al t f scs assoc rois i0 (hand # hs) st) = snd st @ (n1 @ n2)"
    using n1(1) n2(1) by simp
  have b: "\<exists>j < length (hand # hs). \<exists>r \<in> set rois. ?P (i0 + j) ((hand # hs) ! j) r ev"
    if "ev \<in> set (n1 @ n2)" for ev
  proof (cases "ev \<in> set n1")
    case True
    then obtain r where "r \<in> set rois" "?P i0 hand r ev" using n1(2) by blast
    then have "0 < length (hand # hs) \<and> (\<exists>r \<in> set rois. ?P (i0 + 0) ((hand # hs) ! 0) r ev)"
      by auto
    then show ?thesis by blast
  next
    case False
    then have "ev \<in> set n2" using that by simp
    then obtain j r where j: "j < length hs" "r \<in> set rois" "?P (i0 + 1 + j) (hs ! j) r ev"
      using n2(2) by blast
    then have "Suc j < length (hand # hs) \<and>
        (\<exists>r \<in> set rois. ?P (i0 + Suc j) ((hand # hs) ! Suc j) r ev)"
      by auto
    then show ?thesis by blast
  qed
  from a b show ?case by blast
qed

lemma detect_violations_triggered:
  assumes "ev \<in> set (snd (detect_violations al t dets rois f s))"
  shows "\<exists>i < length (hands_of dets). \<exists>roi \<in> set rois.
            roi_requires_scooper roi \<and> is_in_roi (hands_of dets ! i) roi \<and>
            \<not> is_hand_using_scooper_simple al (hands_of dets ! i) (scoopers_of dets) \<and>
            entry_event_for i (hands_of dets ! i)
              (associate_hands_with_workers (hands_of dets) (persons_of dets) i) roi ev"
proof -
  obtain new where new: "snd (hands_loop al t f (scoopers_of dets)
        (associate_hands_with_workers (hands_of dets) (persons_of dets)) rois 0 (hands_of dets) (s, [])) =
      snd (s, []) @ new"
    "\<forall>ev \<in> set new. \<exists>j < length (hands_of dets). \<exists>roi \<in> set rois.
            roi_requires_scooper roi \<and> is_in_roi (hands_of dets ! j) roi \<and>
            \<not> is_hand_using_scooper_simple al (hands_of dets ! j) (scoopers_of dets) \<and>
            entry_event_for (0 + j) (hands_of dets ! j)
              (associate_hands_with_workers (hands_of dets) (persons_of dets) (0 + j)) roi ev"
    using hands_loop_triggered by blast
  have "ev \<in> set new"
    using assms new(1) by (simp add: detect_violations_def Let_def)
  then show ?thesis using new(2) by simp
qed

text \<open>
  C10. Every event that one call of \<^verbatim>\<open>_detect_violations\<close> returns comes from a pass for
  some hand number \<open>i\<close> of the frame and some ROI of the request, in which the hand is inside
  the ROI, the ROI requires a scooper and the hand does not count as using one. The event
  has the type \<open>HAND_WITHOUT_SCOOPER\<close> and the severity \<open>high\<close>; its confidence, centre and
  bounding box are those of that hand \<open>i\<close>; its ROI name is that ROI's, its worker id the one
  associated with hand \<open>i\<close>, and its description names hand \<open>i + 1\<close>, that worker and that
  ROI. A single pass appends nothing or exactly this one event. The parser gives a
  detection the confidence 0 when the request's confidence entry is missing or null, and
  the entry's number otherwise.
\<close>

theorem entry_violation_fields:
  "(\<forall>ev \<in> set (snd (detect_violations al t dets rois f s)).
      \<exists>i < length (hands_of dets). \<exists>roi \<in> set rois.
        roi_requires_scooper roi \<and> is_in_roi (hands_of dets ! i) roi \<and>
        \<not> is_hand_using_scooper_simple al (hands_of dets ! i) (scoopers_of dets) \<and>
        ev_violation_type ev = HAND_WITHOUT_SCOOPER \<and> ev_severity ev = ''high'' \<and>
        ev_confidence ev = confidence (hands_of dets ! i) \<and>
        evd_hand_center (ev_evidence ev) = center (hands_of dets ! i) \<and>
        evd_hand_bbox (ev_evidence ev) = bbox (hands_of dets ! i) \<and>
        ev_roi_name ev = roi_name roi \<and>
        ev_worker_id ev = associate_hands_with_workers (hands_of dets) (persons_of dets) i \<and>
        ev_description ev =
          ''Hand '' @ str_nat (i + 1) @
          worker_info (associate_hands_with_workers (hands_of dets) (persons_of dets) i) @
          '' in '' @ roi_name roi @ '' without scooper (complete sequence)'') \<and>
   (snd (hand_roi_step al t f scs k hand w r st) = snd st \<or>
    snd (hand_roi_step al t f scs k hand w r st) = snd st @ [entry_event t f k hand w r (fst st)]) \<and>
   entry_event_for k hand w r (entry_event t f k hand w r s') \<and>
   (parse_detections fromiso raws fid ts = Some parsed \<longrightarrow>
      map confidence parsed = map (\<lambda>d. parsed_confidence (raw_confidence d)) raws) \<and>
   parsed_confidence Missing = 0 \<and> parsed_confidence Null = 0 \<and> parsed_confidence (Num v) = v"
proof -
  have 1: "\<forall>ev \<in> set (snd (detect_violations al t dets rois f s)).
      \<exists>i < length (hands_of dets). \<exists>roi \<in> set rois.
        roi_requires_scooper roi \<and> is_in_roi (hands_of dets ! i) roi \<and>
        \<not> is_hand_using_scooper_simple al (hands_of dets ! i) (scoopers_of dets) \<and>
        ev_violation_type ev = HAND_WITHOUT_SCOOPER \<and> ev_severity ev = ''high'' \<and>
        ev_confidence ev = confidence (hands_of dets ! i) \<and>
        evd_hand_center (ev_evidence ev) = center (hands_of dets ! i) \<and>
        evd_hand_bbox (ev_evidence ev) = bbox (hands_of dets ! i) \<and>
        ev_roi_name ev = roi_name roi \<and>
        ev_worker_id ev = associate_hands_with_workers (hands_of dets) (persons_of dets) i \<and>
        ev_description ev =
          ''Hand '' @ str_nat (i + 1) @
          worker_info (associate_hands_with_workers (hands_of dets) (persons_of dets) i) @
          '' in '' @ roi_name roi @ '' without scooper (complete sequence)''"
  proof
    fix ev
    assume "ev \<in> set (snd (detect_violations al t dets rois f s))"
    from detect_violations_triggered [OF this]
    obtain i roi where "i < length (hands_of dets)" "roi \<in> set rois"
      "roi_requires_scooper roi" "is_in_roi (hands_of dets ! i) roi"
      "\<not> is_hand_using_scooper_simple al (hands_of dets ! i) (scoopers_of dets)"
      "entry_event_for i (hands_of dets ! i)
         (associate_hands_with_workers (hands_of dets) (persons_of dets) i) roi ev"
      by blast
    then show "\<exists>i < length (hands_of dets). \<exists>roi \<in> set rois.
        roi_requires_scooper roi \<and> is_in_roi (hands_of dets ! i) roi \<and>
        \<not> is_hand_using_scooper_simple al (hands_of dets ! i) (scoopers_of dets) \<and>
        ev_violation_type ev = HAND_WITHOUT_SCOOPER \<and> ev_severity ev = ''high'' \<and>
        ev_confidence ev = confidence (hands_of dets ! i) \<and>
        evd_hand_center (ev_evidence ev) = center (hands_of dets ! i) \<and>
        evd_hand_bbox (ev_evidence ev) = bbox (hands_of dets ! i) \<and>
        ev_roi_name ev = roi_name roi \<and>
        ev_worker_id ev = associate_hands_with_workers (hands_of dets) (persons_of dets) i \<and>
        ev_description ev =
          ''Hand '' @ str_nat (i + 1) @
          worker_info (associate_hands_with_workers (hands_of dets) (persons_of dets) i) @
          '' in '' @ roi_name roi @ '' without scooper (complete sequence)''"
      unfolding entry_event_for_def by blast
  qed
  have 2: "snd (hand_roi_step al t f scs k hand w r st) = snd st \<or>
    snd (hand_roi_step al t f scs k hand w r st) = snd st @ [entry_event t f k hand w r (fst st)]"
    by (simp add: hand_roi_step_snd)
  have 3: "entry_event_for k hand w r (entry_event t f k hand w r s')"
    by (rule entry_event_is_for)
  have 4: "parse_detections fromiso raws fid ts = Some parsed \<longrightarrow>
      map confidence parsed = map (\<lambda>d. parsed_confidence (raw_confidence d)) raws"
    using parse_detections_confidence by blast
  have 5: "parsed_confidence Missing = 0 \<and> parsed_confidence Null = 0 \<and>
      parsed_confidence (Num v) = v"
    by (simp add: parsed_confidence_def)
  from 1 2 3 4 5 show ?thesis by (intro conjI) blast+
qed

lemma classes_of_two_hands:
  "hands_of two_hands = two_hands" "persons_of two_hands = []" "scoopers_of two_hands = []"
  by (simp_all add: two_hands_def hands_of_def persons_of_def scoopers_of_def det_at_def lower_def
      lower_char_def)

lemma check_sequence_completion_not_open:
  "active_sequences s (make_sequence_key h r) = None \<Longrightarrow> check_sequence_completion h r f t s = s"
  by (simp add: check_sequence_completion_def Let_def)

lemma two_hands_events:
  "snd (detect_violations True 0 two_hands [roi_A] ''frame_1'' initial_detector) =
     [entry_event 0 ''frame_1'' 1 (det_at ''hand'' 520 420) None roi_A initial_detector]"
proof -
  let ?h0 = "(det_at ''hand'' 100 100)\<lparr>confidence := 1 / 2\<rparr>"
  let ?h1 = "det_at ''hand'' 520 420"
  have out: "\<not> is_in_roi ?h0 roi_A"
    by (simp add: is_in_roi_def det_at_def roi_A_def rect_roi_def dict_get0_def or0_def)
  have s0: "hand_roi_step True 0 ''frame_1'' [] 0 ?h0 None roi_A (initial_detector, []) =
      (initial_detector, [])"
    using out
    by (simp add: hand_roi_step_outside check_sequence_completion_not_open initial_detector_def)
  have k1: "make_sequence_key (make_hand_id 1 None) (roi_name roi_A) \<notin>
      dom (active_sequences initial_detector)"
    by (simp add: initial_detector_def)
  have c1: "should_create_sequence_violation initial_detector 0 (make_hand_id 1 None) (roi_name roi_A)
      (is_hand_using_scooper_simple True ?h1 [])"
    by (simp add: should_create_cases not_using_without_scoopers initial_detector_def)
  have s1: "snd (hand_roi_step True 0 ''frame_1'' [] 1 ?h1 None roi_A (initial_detector, [])) =
      [entry_event 0 ''frame_1'' 1 ?h1 None roi_A initial_detector]"
    using k1 c1 roi_A_inside(1) roi_A_inside(2) [of "''hand''"] by (simp add: hand_roi_step_snd)
  have "snd (detect_violations True 0 two_hands [roi_A] ''frame_1'' initial_detector) =
      snd (hands_loop True 0 ''frame_1'' [] Map.empty [roi_A] 0 [?h0, ?h1] (initial_detector, []))"
    by (simp add: detect_violations_def Let_def classes_of_two_hands
        associate_hands_with_workers_def) (simp add: two_hands_def)
  also have "\<dots> = snd (hand_roi_step True 0 ''frame_1'' [] 1 ?h1 None roi_A (initial_detector, []))"
    by (simp add: s0)
  finally show ?thesis using s1 by simp
qed

theorem entry_violation_fields_witness:
  "length (snd (detect_violations True 0 two_hands [roi_A] ''frame_1'' initial_detector)) = 1 \<and>
   confidence (hands_of two_hands ! 0) = 1 / 2 \<and>
   confidence (hands_of two_hands ! 1) = 9 / 10 \<and>
   \<not> is_in_roi (hands_of two_hands ! 0) roi_A \<and> is_in_roi (hands_of two_hands ! 1) roi_A \<and>
   ev_confidence (hd (snd (detect_violations True 0 two_hands [roi_A] ''frame_1'' initial_detector))) =
     9 / 10 \<and>
   ev_description (hd (snd (detect_violations True 0 two_hands [roi_A] ''frame_1'' initial_detector))) =
     ''Hand 2 (Unassigned) in A without scooper (complete sequence)'' \<and>
   ev_severity (hd (snd (detect_violations True 0 two_hands [roi_A] ''frame_1'' initial_detector))) =
     ''high'' \<and>
   (\<exists>parsed. parse_detections (\<lambda>_. Some 0) [raw_hand_null] ''frame_1'' ''2024-01-01T00:00:00Z'' =
        Some parsed \<and> map confidence parsed = [0])"
proof -
  let ?h1 = "det_at ''hand'' 520 420"
  let ?p = "[\<lparr>class_name = ''hand'', confidence = 0,
              bbox = raw_bbox raw_hand_null, center = raw_center raw_hand_null, area = 1600,
              det_frame_id = ''frame_1'', det_timestamp = 0\<rparr>]"
  have p: "parse_detections (\<lambda>_. Some 0) [raw_hand_null] ''frame_1'' ''2024-01-01T00:00:00Z'' = Some ?p"
    by (simp add: raw_hand_null_def parsed_confidence_def)
  have h: "hands_of two_hands ! 0 = (det_at ''hand'' 100 100)\<lparr>confidence := 1 / 2\<rparr>"
    "hands_of two_hands ! 1 = ?h1"
    unfolding classes_of_two_hands(1) by (simp_all add: two_hands_def)
  have out: "\<not> is_in_roi ((det_at ''hand'' 100 100)\<lparr>confidence := 1 / 2\<rparr>) roi_A"
    by (simp add: is_in_roi_def det_at_def roi_A_def rect_roi_def dict_get0_def or0_def)
  have d: "ev_description (entry_event 0 ''frame_1'' 1 ?h1 None roi_A initial_detector) =
      ''Hand 2 (Unassigned) in A without scooper (complete sequence)''"
  proof -
    have "str_nat (1 + 1) = ''2''" by (simp add: str_nat_digit digit_char_def)
    then show ?thesis
      by (simp add: entry_event_def create_violation_def Let_def worker_info_def truthy_worker_def
          roi_A_def rect_roi_def)
  qed
  have e: "snd (detect_violations True 0 two_hands [roi_A] ''frame_1'' initial_detector) =
      [entry_event 0 ''frame_1'' 1 ?h1 None roi_A initial_detector]"
    by (rule two_hands_events)
  have c: "confidence ((det_at ''hand'' 100 100)\<lparr>confidence := 1 / 2\<rparr>) = 1 / 2"
    "confidence ?h1 = 9 / 10"
    by (simp_all add: confidence_det_at)
  have f: "ev_confidence (entry_event 0 ''frame_1'' 1 ?h1 None roi_A initial_detector) = 9 / 10"
    "ev_severity (entry_event 0 ''frame_1'' 1 ?h1 None roi_A initial_detector) = ''high''"
    by (simp_all only: entry_event_fields c)
  have goal: "length (snd (detect_violations True 0 two_hands [roi_A] ''frame_1'' initial_detector)) = 1 \<and>
   confidence (hands_of two_hands ! 0) = 1 / 2 \<and>
   confidence (hands_of two_hands ! 1) = 9 / 10 \<and>
   \<not> is_in_roi (hands_of two_hands ! 0) roi_A \<and> is_in_roi (hands_of two_hands ! 1) roi_A \<and>
   ev_confidence (hd (snd (detect_violations True 0 two_hands [roi_A] ''frame_1'' initial_detector))) =
     9 / 10 \<and>
   ev_description (hd (snd (detect_violations True 0 two_hands [roi_A] ''frame_1'' initial_detector))) =
     ''Hand 2 (Unassigned) in A without scooper (complete sequence)'' \<and>
   ev_severity (hd (snd (detect_violations True 0 two_hands [roi_A] ''frame_1'' initial_detector))) =
     ''high'' \<and>
   (\<exists>parsed. parse_detections (\<lambda>_. Some 0) [raw_hand_null] ''frame_1'' ''2024-01-01T00:00:00Z'' =
        Some parsed \<and> map confidence parsed = [0])"
    unfolding e h list.sel
    using c f d out roi_A_inside(2) [of "''hand''"] p by simp
  show ?thesis
    using entry_violation_fields [of True 0 two_hands "[roi_A]" "''frame_1''" initial_detector
        "[]" 1 ?h1 None roi_A "(initial_detector, [])" initial_detector "\<lambda>_. Some 0"
        "[raw_hand_null]" "''frame_1''" "''2024-01-01T00:00:00Z''" ?p 0]
    by - (rule goal)
qed

section \<open>Bounded state after an analysis call\<close>






















section \<open>What the staleness janitor leaves alone\<close>












end
